theory Spec2Isabelle
  imports Complex_Main "HOL-Library.AList" "HOL-Library.List_Lexorder" "HOL-Library.Char_ord"
begin

section \<open>The model\<close>

subsection \<open>Data model\<close>

text \<open>
  The embedding follows \<^verbatim>\<open>src/mdgo/util/dict_utils.py\<close>.

  \<^item> Python floats (masses, charges) are idealised as \<^typ>\<open>real\<close>: comparisons and sums
    are exact, there is no rounding, no NaN and no infinity.
  \<^item> Python strings are \<^typ>\<open>string\<close>; the text handled here is ASCII.
  \<^item> A Python \<^verbatim>\<open>dict\<close> is an association list in insertion order:
    \<^verbatim>\<open>d[k] = v\<close> is \<^const>\<open>AList.update\<close> (an existing key keeps its place, a new key goes
    to the end), \<^verbatim>\<open>d.pop(k)\<close> is \<^const>\<open>AList.delete\<close>, \<^verbatim>\<open>d.get(k)\<close> is \<^const>\<open>map_of\<close>.
  \<^item> Every \<^verbatim>\<open>raise\<close>, failed \<^verbatim>\<open>assert\<close> and raising library call is a value of
    \<open>error\<close>, returned as \<open>Inl\<close>.
\<close>

datatype error =
    AssertionError      \<comment> \<open>\<^verbatim>\<open>assert len(masses) == len(names), "Invalid mass found."\<close>\<close>
  | ValueError_format   \<comment> \<open>\<^verbatim>\<open>raise ValueError("The LAMMPS data file should be generated by ...")\<close>\<close>
  | ValueError_int      \<comment> \<open>\<^verbatim>\<open>int(num)\<close> on a token that is no integer literal\<close>
  | ValueError_empty    \<comment> \<open>\<^verbatim>\<open>np.argmax\<close>/\<^verbatim>\<open>np.argmin\<close> of an empty array\<close>
  | StopIteration       \<comment> \<open>\<^verbatim>\<open>next(it)\<close> on an exhausted iterator\<close>
  | IndexError          \<comment> \<open>\<^verbatim>\<open>lines[0]\<close>, \<^verbatim>\<open>lines[1]\<close>, \<^verbatim>\<open>residues[0]\<close> out of range\<close>

type_synonym ('k, 'v) dict = "('k \<times> 'v) list"

subsection \<open>Mass to element name\<close>

text \<open>
  \<^verbatim>\<open>MM_of_Elements\<close> is imported from the package's \<^verbatim>\<open>__init__\<close> module, which is not
  among the source files; the functions take it as the parameter \<open>tbl\<close>, the list
  of \<^verbatim>\<open>MM_of_Elements.items()\<close> in the dict's definition order.
\<close>

type_synonym element_table = "(string \<times> real) list"

text \<open>
  \<^verbatim>\<open>math.isclose(a, b, abs_tol=t)\<close> with the default \<^verbatim>\<open>rel_tol=1e-09\<close>:
  \<^verbatim>\<open>abs(a-b) <= max(rel_tol * max(abs(a), abs(b)), abs_tol)\<close>.
\<close>

definition isclose :: "real \<Rightarrow> real \<Rightarrow> real \<Rightarrow> bool" where
  "isclose a b abs_tol = (\<bar>a - b\<bar> \<le> max ((1 / 10 ^ 9) * max \<bar>a\<bar> \<bar>b\<bar>) abs_tol)"

text \<open>
  \<^verbatim>\<open>
  names = []
  for mass in masses:
      for item in MM_of_Elements.items():
          if math.isclose(mass, item[1], abs_tol=0.1):
              names.append(item[0])
  assert len(masses) == len(names), "Invalid mass found."
  return np.array(names)
  \<close>
  The assertion is modelled as enabled (Python run without \<^verbatim>\<open>-O\<close>).
\<close>

definition mass_to_name :: "element_table \<Rightarrow> real list \<Rightarrow> error + string list" where
  "mass_to_name tbl masses =
     (let names =
        fold (\<lambda>mass names.
          fold (\<lambda>item names.
            if isclose mass (snd item) (1 / 10) then names @ [fst item] else names)
            tbl names)
          masses []
      in if length masses = length names then Inr names else Inl AssertionError)"

text \<open>
  The masses table of a \<^verbatim>\<open>LammpsData\<close> object is a data frame with one row per atom
  type: the row's label (the integer type id, \<^verbatim>\<open>df.index\<close>) and its \<^verbatim>\<open>mass\<close> column.
  It is modelled as the list of its rows in index order; \<^verbatim>\<open>df["mass"][row]\<close> is the
  mass of the row labelled \<^verbatim>\<open>row\<close>, the labels of a data frame of type ids being
  distinct.
  \<^verbatim>\<open>
  atoms = {}
  for row in df.index:
      for item in MM_of_Elements.items():
          if math.isclose(df["mass"][row], item[1], abs_tol=0.01):
              atoms[int(row)] = item[0]
  return atoms
  \<close>
\<close>

type_synonym masses_table = "(int \<times> real) list"

definition lmp_mass_to_name :: "element_table \<Rightarrow> masses_table \<Rightarrow> (int, string) dict" where
  "lmp_mass_to_name tbl df =
     fold (\<lambda>(row, mass) atoms.
       fold (\<lambda>item atoms.
         if isclose mass (snd item) (1 / 100) then AList.update row (fst item) atoms else atoms)
         tbl atoms)
       df []"

text \<open>
  The vocabulary of the specification: a mass is within absolute tolerance \<open>tol\<close> of an
  element's reference mass; the elements of the table within tolerance of a mass, in
  table order; the first of them. A table is \<open>table_bounded\<close> when no reference mass
  exceeds \<open>10\<^sup>6\<close> in absolute value, as in every table of atomic masses: then the
  relative tolerance of \<^verbatim>\<open>math.isclose\<close> never decides.
\<close>

definition within_tol :: "real \<Rightarrow> real \<Rightarrow> string \<times> real \<Rightarrow> bool" where
  "within_tol tol mass item = (\<bar>mass - snd item\<bar> \<le> tol)"

definition matching :: "real \<Rightarrow> element_table \<Rightarrow> real \<Rightarrow> element_table" where
  "matching tol tbl mass = filter (within_tol tol mass) tbl"

definition first_match :: "real \<Rightarrow> element_table \<Rightarrow> real \<Rightarrow> string option" where
  "first_match tol tbl mass = map_option fst (List.find (within_tol tol mass) tbl)"

definition table_bounded :: "element_table \<Rightarrow> bool" where
  "table_bounded tbl = list_all (\<lambda>item. \<bar>snd item\<bar> \<le> 10 ^ 6) tbl"

text \<open>
  The two loops of \<open>lmp_mass_to_name\<close> by name: the scan of the table for one row, and the
  loop over the rows from a given mapping.
\<close>

definition scan_row :: "element_table \<Rightarrow> int \<Rightarrow> real \<Rightarrow> (int, string) dict \<Rightarrow> (int, string) dict" where
  "scan_row tbl row mass atoms =
     fold (\<lambda>item atoms.
         if isclose mass (snd item) (1 / 100) then AList.update row (fst item) atoms else atoms)
         tbl atoms"

definition lmp_rows :: "element_table \<Rightarrow> masses_table \<Rightarrow> (int, string) dict \<Rightarrow> (int, string) dict" where
  "lmp_rows tbl df atoms0 = fold (\<lambda>(row, mass) atoms. scan_row tbl row mass atoms) df atoms0"

subsection \<open>Strings\<close>

text \<open>
  The string operations the parsers use, on ASCII text: \<^verbatim>\<open>string.ascii_lowercase\<close>,
  \<^verbatim>\<open>str(i)\<close> of an integer, \<^verbatim>\<open>s.isnumeric()\<close> (all characters digits, at least one),
  \<^verbatim>\<open>int(s)\<close>, \<^verbatim>\<open>re.findall(r"\w+", s)\<close> and the slice \<^verbatim>\<open>xs[0:stop]\<close>.
\<close>

definition ascii_lowercase :: string where
  "ascii_lowercase = ''abcdefghijklmnopqrstuvwxyz''"

definition ascii_uppercase :: string where
  "ascii_uppercase = ''ABCDEFGHIJKLMNOPQRSTUVWXYZ''"

definition digits :: string where
  "digits = ''0123456789''"

definition is_digit :: "char \<Rightarrow> bool" where
  "is_digit c = (c \<in> set digits)"

definition word_char :: "char \<Rightarrow> bool" where
  "word_char c = (c \<in> set (ascii_lowercase @ ascii_uppercase @ digits @ ''_''))"

text \<open>\<^verbatim>\<open>str(i)\<close>: the decimal digits, with a leading minus sign for a negative integer.\<close>

fun str_nat :: "nat \<Rightarrow> string" where
  "str_nat n = (if n < 10 then [digits ! n] else str_nat (n div 10) @ [digits ! (n mod 10)])"

declare str_nat.simps [simp del]

definition str_int :: "int \<Rightarrow> string" where
  "str_int i = (if i < 0 then ''-'' @ str_nat (nat (- i)) else str_nat (nat i))"

text \<open>
  \<^verbatim>\<open>int(s)\<close> on a token of word characters: \<open>s\<close> must be decimal digits, where single
  underscores may stand between two digits (\<^verbatim>\<open>int("1_000") == 1000\<close>); anything else raises
  \<^verbatim>\<open>ValueError\<close>, here \<open>None\<close>.
\<close>

definition digit_val :: "char \<Rightarrow> nat" where
  "digit_val c = of_char c - 48"

definition nat_of_digits :: "string \<Rightarrow> nat" where
  "nat_of_digits s = foldl (\<lambda>acc c. 10 * acc + digit_val c) 0 s"

definition isnumeric :: "string \<Rightarrow> bool" where
  "isnumeric s = (s \<noteq> [] \<and> list_all is_digit s)"

fun digits_underscores :: "string \<Rightarrow> bool" where
  "digits_underscores [] = True"
| "digits_underscores (c # cs) =
     (if is_digit c then digits_underscores cs
      else c = CHR ''_'' \<and> (case cs of [] \<Rightarrow> False | d # ds \<Rightarrow> is_digit d \<and> digits_underscores ds))"

definition int_literal :: "string \<Rightarrow> bool" where
  "int_literal s = (case s of [] \<Rightarrow> False | c # cs \<Rightarrow> is_digit c \<and> digits_underscores cs)"

definition py_int :: "string \<Rightarrow> int option" where
  "py_int s = (if int_literal s then Some (int (nat_of_digits (filter is_digit s))) else None)"

text \<open>
  \<^verbatim>\<open>re.findall(r"\w+", s)\<close>: the maximal runs of word characters (letters, digits,
  underscore), left to right. \<open>cur\<close> is the run being read.
\<close>

fun findall_from :: "string \<Rightarrow> string \<Rightarrow> string list" where
  "findall_from cur [] = (if cur = [] then [] else [cur])"
| "findall_from cur (c # cs) =
     (if word_char c then findall_from (cur @ [c]) cs
      else (if cur = [] then [] else [cur]) @ findall_from [] cs)"

definition findall_w :: "string \<Rightarrow> string list" where
  "findall_w s = findall_from [] s"

text \<open>
  \<^verbatim>\<open>xs[0:stop]\<close>: the first \<open>stop\<close> elements; a negative \<open>stop\<close> counts from the end.
\<close>

definition py_slice0 :: "int \<Rightarrow> 'a list \<Rightarrow> 'a list" where
  "py_slice0 stop xs = (if 0 \<le> stop then take (nat stop) xs else take (length xs - nat (- stop)) xs)"

subsection \<open>Residue ranges\<close>

text \<open>
  Both parsers keep an index cursor \<^verbatim>\<open>idx\<close> and the dictionary \<^verbatim>\<open>res_dict\<close>, and both
  handle a group in one of two ways, written twice in the source with the same
  statements. A plain group:
  \<^verbatim>\<open>
  start = idx
  idx += int(num)
  end = idx
  res_dict[name] = "resid " + str(start) + "-" + str(end - 1)
  \<close>
  A branched group:
  \<^verbatim>\<open>
  names = [name + c for c in string.ascii_lowercase[0:frag]]
  start = idx
  idx += int(num) * frag
  for i, n in enumerate(names):
      res_dict[n] = "same mass as resid " + str(start + i)
  \<close>
\<close>

type_synonym res_dict = "(string \<times> string) list"

type_synonym cursor = "int \<times> res_dict"

definition plain_group :: "string \<Rightarrow> int \<Rightarrow> cursor \<Rightarrow> cursor" where
  "plain_group name num st =
     (let (idx, res_dict) = st;
          start = idx;
          idx = idx + num;
          end = idx
      in (idx, AList.update name (''resid '' @ str_int start @ ''-'' @ str_int (end - 1)) res_dict))"

definition branched_group :: "string \<Rightarrow> int \<Rightarrow> int \<Rightarrow> cursor \<Rightarrow> cursor" where
  "branched_group name num frag st =
     (let (idx, res_dict) = st;
          names = map (\<lambda>c. name @ [c]) (py_slice0 frag ascii_lowercase);
          start = idx;
          idx = idx + num * frag
      in (idx,
          fold (\<lambda>(i, n) res_dict.
                  AList.update n (''same mass as resid '' @ str_int (start + int i)) res_dict)
               (enumerate 0 names) res_dict))"

text \<open>
  One turn of the loop \<^verbatim>\<open>for num in it\<close> of \<^verbatim>\<open>res_dict_from_datafile\<close>: \<open>num\<close> has been
  taken from the iterator, \<open>it\<close> is what the iterator still holds. The turn returns the
  new cursor and dictionary and the rest of the iterator.
  \<^verbatim>\<open>
  name = next(it)
  if name.isnumeric():
      frag = int(name)
      name = next(it)
      ... branched group ...
  else:
      ... plain group ...
  \<close>
\<close>

fun datafile_step :: "string \<Rightarrow> string list \<Rightarrow> cursor \<Rightarrow> error + (cursor \<times> string list)" where
  "datafile_step num [] st = Inl StopIteration"
| "datafile_step num (name # it) st =
     (if isnumeric name then
        (case it of
           [] \<Rightarrow> Inl StopIteration
         | name' # it' \<Rightarrow>
            (case py_int num of
               None \<Rightarrow> Inl ValueError_int
             | Some n \<Rightarrow> Inr (branched_group name' n (int (nat_of_digits name)) st, it')))
      else
        (case py_int num of
           None \<Rightarrow> Inl ValueError_int
         | Some n \<Rightarrow> Inr (plain_group name n st, it)))"

function datafile_loop :: "string list \<Rightarrow> cursor \<Rightarrow> error + res_dict" where
  "datafile_loop [] st = Inr (snd st)"
| "datafile_loop (num # it) st =
     (case datafile_step num it st of
        Inl e \<Rightarrow> Inl e
      | Inr (st', it') \<Rightarrow> datafile_loop it' st')"
  by pat_completeness auto

termination
  by (relation "measure (\<lambda>(it, st). length it)")
     (auto elim!: datafile_step.elims split: if_splits list.splits option.splits)

text \<open>
  The file is given by the result of \<^verbatim>\<open>f.readlines()\<close>: its lines, each with its newline.
  \<^verbatim>\<open>
  if lines[0] == "Generated by pymatgen.io.lammps.data.LammpsData\n" and lines[1].startswith("#"):
      elyte_info = re.findall(r"\w+", lines[1])
      it = iter(elyte_info)
      idx = 1
      for num in it: ...
      return res_dict
  raise ValueError("The LAMMPS data file should be generated by pymatgen.io.lammps.data.")
  \<close>
\<close>

definition generator_marker :: string where
  "generator_marker = ''Generated by pymatgen.io.lammps.data.LammpsData\<newline>''"

definition startswith :: "string \<Rightarrow> string \<Rightarrow> bool" where
  "startswith s p = (take (length p) s = p)"

definition res_dict_from_datafile :: "string list \<Rightarrow> error + res_dict" where
  "res_dict_from_datafile lines =
     (case lines of
        [] \<Rightarrow> Inl IndexError
      | line0 # rest \<Rightarrow>
          if line0 = generator_marker then
            (case rest of
               [] \<Rightarrow> Inl IndexError
             | line1 # _ \<Rightarrow>
                 if startswith line1 ''#'' then datafile_loop (findall_w line1) (1, [])
                 else Inl ValueError_format)
          else Inl ValueError_format)"

text \<open>
  A \<^verbatim>\<open>CombinedData\<close> object: its \<^verbatim>\<open>names\<close> and \<^verbatim>\<open>nums\<close>, and its \<^verbatim>\<open>frags\<close> when it has
  the attribute (\<^verbatim>\<open>hasattr(lammps_data, "frags")\<close>). The loops run over \<^verbatim>\<open>zip\<close> of the
  arrays.
\<close>

record combined_data =
  names :: "string list"
  nums :: "int list"
  frags :: "int list option"

definition lammpsdata_group :: "string \<times> int \<times> int \<Rightarrow> cursor \<Rightarrow> cursor" where
  "lammpsdata_group g st =
     (let (name, num, frag) = g
      in if frag = 1 then plain_group name num st else branched_group name num frag st)"

definition res_dict_from_lammpsdata :: "combined_data \<Rightarrow> res_dict" where
  "res_dict_from_lammpsdata lammps_data =
     (case frags lammps_data of
        Some fs \<Rightarrow>
          snd (fold lammpsdata_group (zip (names lammps_data) (zip (nums lammps_data) fs)) (1, []))
      | None \<Rightarrow>
          snd (fold (\<lambda>(name, num) st. plain_group name num st)
                 (zip (names lammps_data) (nums lammps_data)) (1, [])))"

text \<open>
  The vocabulary of the specification. The tokens of a header are \<open>well_grouped\<close> when
  they split into complete groups: an integer count, then a label, or a multiplicity
  and a label. The first two lines of a file are \<open>conforming\<close> when they are the
  generator marker and a line that begins with \<^verbatim>\<open>#\<close>.
\<close>

fun well_grouped :: "string list \<Rightarrow> bool" where
  "well_grouped [] = True"
| "well_grouped [num] = False"
| "well_grouped (num # name # it) =
     (int_literal num \<and>
      (if isnumeric name then (case it of [] \<Rightarrow> False | _ # it' \<Rightarrow> well_grouped it')
       else well_grouped it))"

definition conforming :: "string list \<Rightarrow> bool" where
  "conforming lines =
     (case lines of
        line0 # line1 # _ \<Rightarrow> line0 = generator_marker \<and> startswith line1 ''#''
      | _ \<Rightarrow> False)"

text \<open>
  For the equivalence of the two entry points: a group is a count, an optional fragment
  multiplicity and a label. A file encodes a sequence of groups when its preamble
  conforms and the tokens of its second line are, group after group, the count, the
  multiplicity when there is one, and the label. A \<^verbatim>\<open>CombinedData\<close> object encodes it
  when \<^verbatim>\<open>names\<close> are the labels, \<^verbatim>\<open>nums\<close> the counts and \<^verbatim>\<open>frags\<close> the multiplicities, 1
  standing for none (\<^verbatim>\<open>frags\<close> may be absent when no group has a multiplicity).
  The labels of a sequence that a file encodes are tokens of its second line: non-empty
  runs of letters, digits and underscores (lemma \<open>file_encodes_word_labels\<close>).
  A sequence is \<open>unambiguous\<close> when no multiplicity is 1 and no group without a
  multiplicity has a numeric label.
\<close>

datatype group = Group (count: nat) (mult: "nat option") (label: string)

definition group_tokens :: "group \<Rightarrow> string list" where
  "group_tokens g =
     (case mult g of
        None \<Rightarrow> [str_nat (count g), label g]
      | Some f \<Rightarrow> [str_nat (count g), str_nat f, label g])"

definition header_tokens :: "group list \<Rightarrow> string list" where
  "header_tokens gs = concat (map group_tokens gs)"

definition file_encodes :: "string list \<Rightarrow> group list \<Rightarrow> bool" where
  "file_encodes lines gs =
     (case lines of
        line0 # line1 # _ \<Rightarrow>
          line0 = generator_marker \<and> startswith line1 ''#'' \<and> findall_w line1 = header_tokens gs
      | _ \<Rightarrow> False)"

definition frag_of :: "group \<Rightarrow> int" where
  "frag_of g = (case mult g of None \<Rightarrow> 1 | Some f \<Rightarrow> int f)"

definition data_encodes :: "combined_data \<Rightarrow> group list \<Rightarrow> bool" where
  "data_encodes lammps_data gs =
     (names lammps_data = map label gs \<and>
      nums lammps_data = map (\<lambda>g. int (count g)) gs \<and>
      (case frags lammps_data of
         Some fs \<Rightarrow> fs = map frag_of gs
       | None \<Rightarrow> list_all (\<lambda>g. mult g = None) gs))"

definition unambiguous :: "group list \<Rightarrow> bool" where
  "unambiguous gs =
     list_all (\<lambda>g. mult g \<noteq> Some 1 \<and> (mult g = None \<longrightarrow> \<not> isnumeric (label g))) gs"

subsection \<open>Residue selection from atom selection\<close>

text \<open>
  \<^verbatim>\<open>u.select_atoms\<close> belongs to MDAnalysis; the function takes it as the parameter
  \<open>select_atoms\<close>, from a selection string to an atom group of any type \<open>'g\<close>. Two atom
  groups are equal (\<^verbatim>\<open>==\<close>, and \<^verbatim>\<open>in\<close> on the list of saved groups) when they hold the
  same atoms, which is equality in \<open>'g\<close>. One turn of the loop over
  \<^verbatim>\<open>select_dict.items()\<close>:
  \<^verbatim>\<open>
  res_select = "same resid as (" + val + ")"
  res_group = u.select_atoms(res_select)
  if key in ["cation", "anion"] or res_group not in saved_select:
      saved_select.append(res_group)
      res_dict[key] = res_select
  \<close>
  and after the loop:
  \<^verbatim>\<open>
  if ("cation" in res_dict and "anion" in res_dict
      and u.select_atoms(res_dict.get("cation")) == u.select_atoms(res_dict.get("anion"))):
      res_dict.pop("anion")
      res_dict["salt"] = res_dict.pop("cation")
  return res_dict
  \<close>
\<close>

definition select_step ::
    "(string \<Rightarrow> 'g) \<Rightarrow> string \<times> string \<Rightarrow> 'g list \<times> (string, string) dict
       \<Rightarrow> 'g list \<times> (string, string) dict" where
  "select_step select_atoms item st =
     (let (key, val) = item;
          (saved_select, res_dict) = st;
          res_select = ''same resid as ('' @ val @ '')'';
          res_group = select_atoms res_select
      in if key \<in> set [''cation'', ''anion''] \<or> res_group \<notin> set saved_select
         then (saved_select @ [res_group], AList.update key res_select res_dict)
         else (saved_select, res_dict))"

definition res_dict_from_select_dict ::
    "(string \<Rightarrow> 'g) \<Rightarrow> (string, string) dict \<Rightarrow> (string, string) dict" where
  "res_dict_from_select_dict select_atoms select_dict =
     (let (saved_select, res_dict) = fold (select_step select_atoms) select_dict ([], [])
      in case (map_of res_dict ''cation'', map_of res_dict ''anion'') of
           (Some cation, Some anion) \<Rightarrow>
             if select_atoms cation = select_atoms anion
             then AList.update ''salt'' cation
                    (AList.delete ''cation'' (AList.delete ''anion'' res_dict))
             else res_dict
         | _ \<Rightarrow> res_dict)"

text \<open>The residue-expanded selection of an atom selection.\<close>

definition expand :: "string \<Rightarrow> string" where
  "expand val = ''same resid as ('' @ val @ '')''"

subsection \<open>Species classification\<close>

text \<open>
  The topology comes from MDAnalysis. What the classifier reads of it is modelled as
  data: an atom has a charge, a type and a name; a residue has its resname, its atoms
  in index order (\<^verbatim>\<open>residue.atoms\<close>) and the fragments of its atoms
  (\<^verbatim>\<open>residue.atoms.fragments\<close>), each fragment its atoms in index order; a universe is the
  list of its residues in index order. An argument \<^verbatim>\<open>ion\<close> or \<^verbatim>\<open>molecule\<close> (a residue or
  an atom group) is the list of its atoms.
\<close>

record atom =
  atom_charge :: real
  atom_type :: string
  atom_name :: string

record residue =
  res_name :: string
  res_atoms :: "atom list"
  res_fragments :: "atom list list"

type_synonym universe = "residue list"

type_synonym select_dict = "(string, string) dict"

text \<open>
  \<^verbatim>\<open>np.argmax\<close> and \<^verbatim>\<open>np.argmin\<close>: the index of the first greatest (least) element;
  \<^verbatim>\<open>ValueError\<close> on an empty array. \<^verbatim>\<open>np.unique(xs, return_counts=True)\<close>: the distinct
  elements in increasing order (strings compare character by character) and how often
  each occurs.
\<close>

definition argmax :: "'a::linorder list \<Rightarrow> error + nat" where
  "argmax xs =
     (if xs = [] then Inl ValueError_empty
      else Inr (length (takeWhile (\<lambda>x. x \<noteq> fold max xs (hd xs)) xs)))"

definition argmin :: "'a::linorder list \<Rightarrow> error + nat" where
  "argmin xs =
     (if xs = [] then Inl ValueError_empty
      else Inr (length (takeWhile (\<lambda>x. x \<noteq> fold min xs (hd xs)) xs)))"

definition np_unique :: "'a::linorder list \<Rightarrow> 'a list" where
  "np_unique xs = sort (remdups xs)"

definition np_unique_counts :: "'a::linorder list \<Rightarrow> 'a list \<times> nat list" where
  "np_unique_counts xs = (np_unique xs, map (count_list xs) (np_unique xs))"

text \<open>
  \<^verbatim>\<open>
  cation_name = "cation" if number == 0 else "cation_" + str(number)
  if len(ion.atoms.types) == 1:
      select_dict[cation_name] = "type " + ion.atoms.types[0]
  else:
      pos_center = ion.atoms[np.argmax(ion.atoms.charges)]
      unique_types = np.unique(ion.atoms.types, return_counts=True)
      uni_center = unique_types[0][np.argmin(unique_types[1])]
      if pos_center.type == uni_center:
          select_dict[cation_name] = "type " + uni_center
      else:
          select_dict[cation_name + "_" + pos_center.name + pos_center.type] = "type " + pos_center.type
          select_dict[cation_name] = "type " + uni_center
  \<close>
  and the same for an anion, with \<^verbatim>\<open>np.argmin\<close> of the charges. The dictionary is an
  argument that the source mutates; the model returns the new dictionary. The default
  \<^verbatim>\<open>number=0\<close> is passed explicitly.
\<close>

definition extract_atom_from_ion ::
    "bool \<Rightarrow> atom list \<Rightarrow> select_dict \<Rightarrow> int \<Rightarrow> error + select_dict" where
  "extract_atom_from_ion positive ion select_dict number =
     (if positive then
        (let cation_name = (if number = 0 then ''cation'' else ''cation_'' @ str_int number)
         in if length (map atom_type ion) = 1
            then Inr (AList.update cation_name (''type '' @ map atom_type ion ! 0) select_dict)
            else
              (case argmax (map atom_charge ion) of
                 Inl e \<Rightarrow> Inl e
               | Inr i \<Rightarrow>
                  (let pos_center = ion ! i;
                       unique_types = np_unique_counts (map atom_type ion)
                   in case argmin (snd unique_types) of
                        Inl e \<Rightarrow> Inl e
                      | Inr j \<Rightarrow>
                         (let uni_center = fst unique_types ! j
                          in if atom_type pos_center = uni_center
                             then Inr (AList.update cation_name (''type '' @ uni_center) select_dict)
                             else Inr (AList.update cation_name (''type '' @ uni_center)
                                    (AList.update
                                       (cation_name @ ''_'' @ atom_name pos_center @ atom_type pos_center)
                                       (''type '' @ atom_type pos_center) select_dict))))))
      else
        (let anion_name = (if number = 0 then ''anion'' else ''anion_'' @ str_int number)
         in if length (map atom_type ion) = 1
            then Inr (AList.update anion_name (''type '' @ map atom_type ion ! 0) select_dict)
            else
              (case argmin (map atom_charge ion) of
                 Inl e \<Rightarrow> Inl e
               | Inr i \<Rightarrow>
                  (let neg_center = ion ! i;
                       unique_types = np_unique_counts (map atom_type ion)
                   in case argmin (snd unique_types) of
                        Inl e \<Rightarrow> Inl e
                      | Inr j \<Rightarrow>
                         (let uni_center = fst unique_types ! j
                          in if atom_type neg_center = uni_center
                             then Inr (AList.update anion_name (''type '' @ uni_center) select_dict)
                             else Inr (AList.update anion_name (''type '' @ uni_center)
                                    (AList.update
                                       (anion_name @ ''_'' @ atom_name neg_center @ atom_type neg_center)
                                       (''type '' @ atom_type neg_center) select_dict)))))))"

text \<open>
  \<^verbatim>\<open>
  if number > 0:
      resname = resname + "_" + str(number)
  neg_center = molecule.atoms[np.argmin(molecule.atoms.charges)]
  select_dict[resname] = "type " + neg_center.type
  \<close>
\<close>

definition extract_atom_from_molecule ::
    "string \<Rightarrow> atom list \<Rightarrow> select_dict \<Rightarrow> int \<Rightarrow> error + select_dict" where
  "extract_atom_from_molecule resname molecule select_dict number =
     (let resname = (if number > 0 then resname @ ''_'' @ str_int number else resname)
      in case argmin (map atom_charge molecule) of
           Inl e \<Rightarrow> Inl e
         | Inr i \<Rightarrow>
            (let neg_center = molecule ! i
             in Inr (AList.update resname (''type '' @ atom_type neg_center) select_dict)))"

text \<open>
  The loops over the fragments of a neutral residue: over \<^verbatim>\<open>enumerate(fragments)\<close> when
  there are exactly two, and with the three counters \<^verbatim>\<open>cation_number\<close>,
  \<^verbatim>\<open>anion_number\<close>, \<^verbatim>\<open>molecule_number\<close> when there are more.
\<close>

definition np_sum :: "real list \<Rightarrow> real" where
  "np_sum xs = sum_list xs"

fun two_fragments :: "string \<Rightarrow> (nat \<times> atom list) list \<Rightarrow> select_dict \<Rightarrow> error + select_dict" where
  "two_fragments resname [] select_dict = Inr select_dict"
| "two_fragments resname ((i, frag) # rest) select_dict =
     (let charge = np_sum (map atom_charge frag)
      in case (if charge > 1 / 1000 then extract_atom_from_ion True frag select_dict 0
               else if charge < - (1 / 1000) then extract_atom_from_ion False frag select_dict 0
               else extract_atom_from_molecule resname frag select_dict (int i + 1)) of
           Inl e \<Rightarrow> Inl e
         | Inr select_dict \<Rightarrow> two_fragments resname rest select_dict)"

fun many_fragments ::
    "string \<Rightarrow> atom list list \<Rightarrow> int \<times> int \<times> int \<Rightarrow> select_dict \<Rightarrow> error + select_dict" where
  "many_fragments resname [] numbers select_dict = Inr select_dict"
| "many_fragments resname (frag # rest) (cation_number, anion_number, molecule_number) select_dict =
     (let charge = np_sum (map atom_charge frag)
      in if charge > 1 / 1000 then
           (case extract_atom_from_ion True frag select_dict cation_number of
              Inl e \<Rightarrow> Inl e
            | Inr select_dict \<Rightarrow>
                many_fragments resname rest (cation_number + 1, anion_number, molecule_number) select_dict)
         else if charge < - (1 / 1000) then
           (case extract_atom_from_ion False frag select_dict anion_number of
              Inl e \<Rightarrow> Inl e
            | Inr select_dict \<Rightarrow>
                many_fragments resname rest (cation_number, anion_number + 1, molecule_number) select_dict)
         else
           (case extract_atom_from_molecule resname frag select_dict molecule_number of
              Inl e \<Rightarrow> Inl e
            | Inr select_dict \<Rightarrow>
                many_fragments resname rest (cation_number, anion_number, molecule_number + 1) select_dict))"

text \<open>
  \<^verbatim>\<open>u.select_atoms("resname " + resname).residues[0]\<close>: the first residue of that name
  among the residues of the selected atoms, so the first that has an atom;
  \<^verbatim>\<open>IndexError\<close> when there is none. (Resnames are taken to be plain names, which the
  selection matches exactly.)
\<close>

definition first_residue :: "universe \<Rightarrow> string \<Rightarrow> error + residue" where
  "first_residue u resname =
     (case filter (\<lambda>r. res_name r = resname \<and> res_atoms r \<noteq> []) u of
        [] \<Rightarrow> Inl IndexError
      | residue # _ \<Rightarrow> Inr residue)"

text \<open>
  The body of the loop over the resnames, for the residue found.
  \<^verbatim>\<open>np.isclose(residue.charge, 0, atol=1e-5)\<close> is
  \<^verbatim>\<open>abs(charge - 0) <= atol + rtol * abs(0)\<close>.
\<close>

definition classify_residue :: "string \<Rightarrow> residue \<Rightarrow> select_dict \<Rightarrow> error + select_dict" where
  "classify_residue resname residue select_dict =
     (let charge = np_sum (map atom_charge (res_atoms residue))
      in if \<bar>charge - 0\<bar> \<le> 1 / 10 ^ 5 + 1 / 10 ^ 5 * \<bar>0\<bar> then
           if length (res_fragments residue) = 2 then
             two_fragments resname (enumerate 0 (res_fragments residue)) select_dict
           else if length (res_fragments residue) \<ge> 2 then
             many_fragments resname (res_fragments residue) (1, 1, 1) select_dict
           else extract_atom_from_molecule resname (res_atoms residue) select_dict 0
         else if charge > 0 then extract_atom_from_ion True (res_atoms residue) select_dict 0
         else extract_atom_from_ion False (res_atoms residue) select_dict 0)"

text \<open>
  \<^verbatim>\<open>
  select_dict = {}
  resnames = np.unique(u.residues.resnames)
  for resname in resnames:
      if resname == "":
          continue
      residue = u.select_atoms("resname " + resname).residues[0]
      ...
  return select_dict
  \<close>
\<close>

fun resnames_loop :: "universe \<Rightarrow> string list \<Rightarrow> select_dict \<Rightarrow> error + select_dict" where
  "resnames_loop u [] select_dict = Inr select_dict"
| "resnames_loop u (resname # resnames) select_dict =
     (if resname = '''' then resnames_loop u resnames select_dict
      else
        (case first_residue u resname of
           Inl e \<Rightarrow> Inl e
         | Inr residue \<Rightarrow>
            (case classify_residue resname residue select_dict of
               Inl e \<Rightarrow> Inl e
             | Inr select_dict \<Rightarrow> resnames_loop u resnames select_dict)))"

definition select_dict_from_resname :: "universe \<Rightarrow> error + select_dict" where
  "select_dict_from_resname u = resnames_loop u (np_unique (map res_name u)) []"

text \<open>
  The vocabulary of the specification: the canonical name of an ion and its numbered
  variant; the extremal-charge atom of an ion, the first atom of greatest charge for a
  cation and of least charge for an anion; the rarest type, the type with the least
  number of atoms, the first in increasing order when several types have that number.
\<close>

definition ion_name :: "bool \<Rightarrow> int \<Rightarrow> string" where
  "ion_name positive number =
     (if positive then ''cation'' else ''anion'') @ (if number = 0 then [] else ''_'' @ str_int number)"

definition first_index :: "'a list \<Rightarrow> 'a \<Rightarrow> nat" where
  "first_index xs v = length (takeWhile (\<lambda>x. x \<noteq> v) xs)"

definition extremal_atom :: "bool \<Rightarrow> atom list \<Rightarrow> atom" where
  "extremal_atom positive ion =
     (let charges = map atom_charge ion
      in ion ! first_index charges (if positive then Max (set charges) else Min (set charges)))"

definition rarest_type :: "string list \<Rightarrow> string" where
  "rarest_type types =
     (let least = Min (set (map (count_list types) types))
      in hd (filter (\<lambda>t. count_list types t = least) (sort (remdups types))))"

text \<open>
  The vocabulary of the specification. A universe is \<open>well_formed\<close> when every residue
  has an atom and every fragment has an atom. A residue is \<open>near_zero\<close> when its total
  charge is within \<open>10\<^sup>-\<^sup>5\<close> of zero. The resnames processed after a resname are the
  \<open>later_resnames\<close>; the key of a resname is kept (\<open>key_kept\<close>) when none of them records an
  entry under that key.
\<close>

definition well_formed :: "universe \<Rightarrow> bool" where
  "well_formed u =
     list_all (\<lambda>r. res_atoms r \<noteq> [] \<and> list_all (\<lambda>frag. frag \<noteq> []) (res_fragments r)) u"

definition near_zero :: "residue \<Rightarrow> bool" where
  "near_zero residue = (\<bar>np_sum (map atom_charge (res_atoms residue))\<bar> \<le> 1 / 10 ^ 5)"

definition frag_charge :: "atom list \<Rightarrow> real" where
  "frag_charge frag = np_sum (map atom_charge frag)"

definition later_resnames :: "universe \<Rightarrow> string \<Rightarrow> string list" where
  "later_resnames u resname = tl (dropWhile (\<lambda>x. x \<noteq> resname) (np_unique (map res_name u)))"

definition key_kept :: "universe \<Rightarrow> string \<Rightarrow> bool" where
  "key_kept u resname =
     (case resnames_loop u (later_resnames u resname) [] of
        Inl e \<Rightarrow> True
      | Inr later \<Rightarrow> resname \<notin> set (map fst later))"

text \<open>
  Every function of the classifier only writes to the dictionary it is given: whether
  it fails does not depend on the dictionary, and what it returns is the dictionary
  with the entries it records from the empty one written over it; distinct keys stay
  distinct.
\<close>

definition writer :: "(select_dict \<Rightarrow> error + select_dict) \<Rightarrow> bool" where
  "writer f =
     (\<forall>d. case f [] of
            Inl e \<Rightarrow> f d = Inl e
          | Inr ups \<Rightarrow>
              (\<exists>d'. f d = Inr d' \<and> map_of d' = map_of d ++ map_of ups
                 \<and> (distinct (map fst d) \<longrightarrow> distinct (map fst d'))))"

section \<open>Properties\<close>

subsection \<open>Mass to element name\<close>

lemma isclose_abs_tol:
  assumes "\<bar>b\<bar> \<le> 10 ^ 6" and "1 / 100 \<le> tol"
  shows "isclose a b tol \<longleftrightarrow> \<bar>a - b\<bar> \<le> tol"
proof
  assume "\<bar>a - b\<bar> \<le> tol"
  then show "isclose a b tol" by (simp add: isclose_def max_def)
next
  assume c: "isclose a b tol"
  show "\<bar>a - b\<bar> \<le> tol"
  proof (rule ccontr)
    assume n: "\<not> \<bar>a - b\<bar> \<le> tol"
    with c have r: "\<bar>a - b\<bar> \<le> (1 / 10 ^ 9) * max \<bar>a\<bar> \<bar>b\<bar>"
      by (simp add: isclose_def max_def split: if_splits)
    show False
    proof (cases "\<bar>a\<bar> \<le> \<bar>b\<bar>")
      case True
      with r have "\<bar>a - b\<bar> \<le> (1 / 10 ^ 9) * \<bar>b\<bar>" by (simp add: max_def)
      with assms n show False by simp
    next
      case False
      with r have "\<bar>a - b\<bar> \<le> (1 / 10 ^ 9) * \<bar>a\<bar>" by (simp add: max_def)
      moreover have "\<bar>a\<bar> - \<bar>b\<bar> \<le> \<bar>a - b\<bar>" by simp
      ultimately show False using assms n by simp
    qed
  qed
qed

lemma isclose_within:
  assumes "table_bounded tbl" and "item \<in> set tbl" and "1 / 100 \<le> tol"
  shows "isclose mass (snd item) tol = within_tol tol mass item"
  using assms isclose_abs_tol [of "snd item" tol mass]
  by (simp add: table_bounded_def list_all_iff within_tol_def)

lemma scan_table_append:
  "fold (\<lambda>item symbols. if P item then symbols @ [fst item] else symbols) tbl symbols
     = symbols @ map fst (filter P tbl)"
  by (induction tbl arbitrary: symbols) simp_all

lemma scan_masses_append:
  "fold (\<lambda>mass symbols.
      fold (\<lambda>item symbols. if P mass item then symbols @ [fst item] else symbols) tbl symbols)
      masses symbols
     = symbols @ concat (map (\<lambda>mass. map fst (filter (P mass) tbl)) masses)"
  by (induction masses arbitrary: symbols) (simp_all add: scan_table_append)

lemma filter_isclose_matching:
  assumes "table_bounded tbl" and "1 / 100 \<le> tol"
  shows "filter (\<lambda>item. isclose mass (snd item) tol) tbl = matching tol tbl mass"
  unfolding matching_def using assms
  by (intro filter_cong refl) (simp add: isclose_within)

lemma mass_to_name_names:
  assumes "table_bounded tbl"
  shows "mass_to_name tbl masses =
    (let symbols = concat (map (\<lambda>mass. map fst (matching (1 / 10) tbl mass)) masses)
     in if length masses = length symbols then Inr symbols else Inl AssertionError)"
  using assms
  by (simp add: mass_to_name_def scan_masses_append filter_isclose_matching)

subsubsection \<open>\<^verbatim>\<open>mass_to_name\<close>\<close>

text \<open>
  When \<open>mass_to_name\<close> returns, the array it returns is as long as the array of masses
  (the second half of C6).
\<close>

theorem mass_to_name_length:
  "mass_to_name tbl masses = Inr symbols \<Longrightarrow> length symbols = length masses"
  by (simp add: mass_to_name_def Let_def split: if_splits)

theorem mass_to_name_length_witness:
  "mass_to_name [(''H'', 1), (''Li'', 6941 / 1000)] [7, 1] = Inr [''Li'', ''H'']
   \<and> length [''Li'', ''H''] = length [7, 1 :: real]"
proof -
  have r: "mass_to_name [(''H'', 1), (''Li'', 6941 / 1000)] [7, 1] = Inr [''Li'', ''H'']"
    by (simp add: mass_to_name_def isclose_def)
  from r mass_to_name_length [OF r] show ?thesis by (intro conjI)
qed

text \<open>
  When no input mass is within tolerance of more than one element, a mass within
  tolerance of none makes \<open>mass_to_name\<close> fail (the first half of C6, where it holds).
\<close>

theorem mass_to_name_unmatched_fails:
  assumes "table_bounded tbl"
    and "list_all (\<lambda>mass. length (matching (1 / 10) tbl mass) \<le> 1) masses"
    and "list_ex (\<lambda>mass. matching (1 / 10) tbl mass = []) masses"
  shows "mass_to_name tbl masses = Inl AssertionError"
proof -
  let ?cnt = "\<lambda>mass. length (matching (1 / 10) tbl mass)"
  have le: "sum_list (map ?cnt masses) \<le> length masses"
    using assms(2) by (induction masses) auto
  have "sum_list (map ?cnt masses) \<noteq> length masses"
    using assms(2,3)
  proof (induction masses)
    case Nil
    then show ?case by simp
  next
    case (Cons m ms)
    have rest: "sum_list (map ?cnt ms) \<le> length ms"
      using Cons.prems(1) by (induction ms) auto
    show ?case
    proof (cases "matching (1 / 10) tbl m = []")
      case True
      with rest show ?thesis by simp
    next
      case False
      with Cons.prems have "?cnt m = 1" and "list_ex (\<lambda>mass. matching (1 / 10) tbl mass = []) ms"
        by (auto simp: Suc_le_eq le_Suc_eq)
      with Cons show ?thesis by simp
    qed
  qed
  then show ?thesis
    using assms(1)
    by (simp add: mass_to_name_names Let_def length_concat comp_def)
qed

theorem mass_to_name_unmatched_fails_witness:
  "table_bounded [(''H'', 1), (''Li'', 6941 / 1000)]
   \<and> list_all (\<lambda>mass. length (matching (1 / 10) [(''H'', 1), (''Li'', 6941 / 1000)] mass) \<le> 1) [7, 5]
   \<and> list_ex (\<lambda>mass. matching (1 / 10) [(''H'', 1), (''Li'', 6941 / 1000)] mass = []) [7, 5]
   \<and> mass_to_name [(''H'', 1), (''Li'', 6941 / 1000)] [7, 5] = Inl AssertionError"
proof -
  have b: "table_bounded [(''H'', 1), (''Li'', 6941 / 1000)]"
    by (simp add: table_bounded_def)
  have m: "list_all (\<lambda>mass. length (matching (1 / 10) [(''H'', 1), (''Li'', 6941 / 1000)] mass) \<le> 1)
      [7, 5]"
    by (simp add: matching_def within_tol_def)
  have e: "list_ex (\<lambda>mass. matching (1 / 10) [(''H'', 1), (''Li'', 6941 / 1000)] mass = []) [7, 5]"
    by (simp add: matching_def within_tol_def)
  from b m e mass_to_name_unmatched_fails [OF b m e] show ?thesis by (intro conjI)
qed

text \<open>
  C6 (the failing input). Two elements of the table share a reference mass (as
  curium and berkelium, both 247, do in tables of standard atomic masses). The first
  input mass matches both, the second matches none: two names for two masses, the
  assertion passes, and the names returned no longer line up with the atoms.
\<close>

theorem mass_to_name_unmatched_not_detected:
  "mass_to_name [(''Li'', 6941 / 1000), (''Cm'', 247), (''Bk'', 247)] [247, 5]
      = Inr [''Cm'', ''Bk'']
   \<and> matching (1 / 10) [(''Li'', 6941 / 1000), (''Cm'', 247), (''Bk'', 247)] 5 = []"
  by (simp add: mass_to_name_def isclose_def matching_def within_tol_def)

text \<open>
  C7 (the failing input). The mass 247 is within tolerance of two elements of the
  table, the first of them Cm. The inner loop does not stop at the first match: the
  mass gets two names, and the assertion on the lengths fails on a valid mass instead
  of Cm being returned. (\<open>lmp_mass_to_name\<close> returns one element for such a mass.) The
  loop that does not stop at the first match is also what lets the unmatched mass of
  C6 pass.
\<close>

theorem mass_to_name_ambiguous_mass_fails:
  "first_match (1 / 10) [(''Cm'', 247), (''Bk'', 247)] 247 = Some ''Cm''
   \<and> mass_to_name [(''Cm'', 247), (''Bk'', 247)] [247] = Inl AssertionError"
  by (simp add: mass_to_name_def isclose_def first_match_def within_tol_def)

text \<open>
  Where C7 holds: when every input mass is within absolute tolerance 0.1 of exactly
  one element of the table, \<open>mass_to_name\<close> returns an array of the same length whose
  \<open>i\<close>-th entry is the symbol of the first (and only) element within 0.1 of the
  \<open>i\<close>-th mass.
\<close>

theorem mass_to_name_unique_match:
  assumes "table_bounded tbl"
    and "list_all (\<lambda>mass. length (matching (1 / 10) tbl mass) = 1) masses"
  shows "\<exists>symbols. mass_to_name tbl masses = Inr symbols
           \<and> length symbols = length masses
           \<and> (\<forall>i < length masses. first_match (1 / 10) tbl (masses ! i) = Some (symbols ! i))"
proof -
  have one: "map fst (matching (1 / 10) tbl mass) = [the (first_match (1 / 10) tbl mass)]
      \<and> first_match (1 / 10) tbl mass \<noteq> None"
    if "length (matching (1 / 10) tbl mass) = 1" for mass
  proof -
    from that obtain item where m: "filter (within_tol (1 / 10) mass) tbl = [item]"
      by (auto simp: matching_def length_Suc_conv)
    then have "List.find (within_tol (1 / 10) mass) tbl = Some item"
      by (induction tbl) (auto split: if_splits)
    with m show ?thesis by (simp add: matching_def first_match_def)
  qed
  let ?symbols = "map (\<lambda>mass. the (first_match (1 / 10) tbl mass)) masses"
  have "concat (map (\<lambda>mass. map fst (matching (1 / 10) tbl mass)) masses) = ?symbols"
    using assms(2) by (induction masses) (simp_all add: one)
  then have "mass_to_name tbl masses = Inr ?symbols"
    using assms(1) by (simp add: mass_to_name_names)
  moreover have "\<forall>i < length masses. first_match (1 / 10) tbl (masses ! i) = Some (?symbols ! i)"
    using assms(2) one by (auto simp: list_all_length)
  ultimately show ?thesis by simp
qed

theorem mass_to_name_unique_match_witness:
  "table_bounded [(''H'', 1), (''Li'', 6941 / 1000)]
   \<and> list_all (\<lambda>mass. length (matching (1 / 10) [(''H'', 1), (''Li'', 6941 / 1000)] mass) = 1)
        [7, 1]
   \<and> mass_to_name [(''H'', 1), (''Li'', 6941 / 1000)] [7, 1] = Inr [''Li'', ''H'']"
proof -
  have b: "table_bounded [(''H'', 1), (''Li'', 6941 / 1000)]"
    by (simp add: table_bounded_def)
  have u: "list_all (\<lambda>mass. length (matching (1 / 10) [(''H'', 1), (''Li'', 6941 / 1000)] mass) = 1)
        [7, 1]"
    by (simp add: matching_def within_tol_def)
  from mass_to_name_unique_match [OF b u]
  obtain symbols where n: "mass_to_name [(''H'', 1), (''Li'', 6941 / 1000)] [7, 1] = Inr symbols"
    and l: "length symbols = 2"
    and f: "\<forall>i < 2. first_match (1 / 10) [(''H'', 1), (''Li'', 6941 / 1000)] ([7, 1] ! i)
               = Some (symbols ! i)"
    by auto
  from f [rule_format, of 0] f [rule_format, of 1]
  have "symbols ! 0 = ''Li''" and "symbols ! 1 = ''H''"
    by (simp_all add: first_match_def within_tol_def)
  with l have "symbols = [''Li'', ''H'']"
    by (cases symbols; cases "tl symbols") (auto simp: length_Suc_conv)
  with b u n show ?thesis by simp
qed

subsubsection \<open>\<^verbatim>\<open>lmp_mass_to_name\<close>\<close>

lemma scan_table_update:
  "map_of (fold (\<lambda>item atoms. if P item then AList.update row (fst item) atoms else atoms) tbl atoms)
     = (if filter P tbl = [] then map_of atoms
        else (map_of atoms)(row \<mapsto> fst (last (filter P tbl))))"
  by (induction tbl arbitrary: atoms) (auto simp: update_conv')

lemma lmp_mass_to_name_rows: "lmp_mass_to_name tbl df = lmp_rows tbl df []"
  by (simp add: lmp_mass_to_name_def lmp_rows_def scan_row_def)

lemma lmp_rows_simps:
  "lmp_rows tbl [] atoms = atoms"
  "lmp_rows tbl ((row, mass) # df) atoms = lmp_rows tbl df (scan_row tbl row mass atoms)"
  by (simp_all add: lmp_rows_def)

lemma scan_row_map_of:
  assumes "table_bounded tbl"
  shows "map_of (scan_row tbl row mass atoms) =
     (if matching (1 / 100) tbl mass = [] then map_of atoms
      else (map_of atoms)(row \<mapsto> fst (last (matching (1 / 100) tbl mass))))"
  using assms by (simp add: scan_row_def scan_table_update filter_isclose_matching)

lemma lmp_rows_keys:
  assumes "table_bounded tbl"
  shows "dom (map_of (lmp_rows tbl df atoms)) =
     dom (map_of atoms) \<union> {row. \<exists>mass. (row, mass) \<in> set df \<and> matching (1 / 100) tbl mass \<noteq> []}"
proof (induction df arbitrary: atoms)
  case Nil
  then show ?case by (simp add: lmp_rows_simps)
next
  case (Cons r df)
  obtain row mass where r: "r = (row, mass)" by (cases r)
  show ?case
    unfolding r lmp_rows_simps Cons.IH
    by (auto simp: scan_row_map_of [OF assms])
qed

lemma lmp_rows_other:
  assumes "table_bounded tbl" and "row \<notin> fst ` set df"
  shows "map_of (lmp_rows tbl df atoms) row = map_of atoms row"
  using assms(2)
proof (induction df arbitrary: atoms)
  case Nil
  then show ?case by (simp add: lmp_rows_simps)
next
  case (Cons r df)
  obtain row' mass' where r: "r = (row', mass')" by (cases r)
  with Cons.prems have "row' \<noteq> row" and "row \<notin> fst ` set df" by auto
  then show ?case
    unfolding r lmp_rows_simps
    by (simp add: Cons.IH scan_row_map_of [OF assms(1)])
qed

lemma lmp_rows_value:
  assumes "table_bounded tbl" and "distinct (map fst df)" and "(row, mass) \<in> set df"
  shows "map_of (lmp_rows tbl df atoms) row =
     (if matching (1 / 100) tbl mass = [] then map_of atoms row
      else Some (fst (last (matching (1 / 100) tbl mass))))"
  using assms(2,3)
proof (induction df arbitrary: atoms)
  case Nil
  then show ?case by simp
next
  case (Cons r df)
  obtain row' mass' where r: "r = (row', mass')" by (cases r)
  show ?case
  proof (cases "(row, mass) \<in> set df")
    case True
    with Cons.prems r have "row' \<noteq> row" by (auto simp: image_iff)
    with True Cons.prems show ?thesis
      unfolding r lmp_rows_simps
      by (simp add: Cons.IH scan_row_map_of [OF assms(1)])
  next
    case False
    with Cons.prems r have e: "row' = row" "mass' = mass" by auto
    have "row \<notin> fst ` set df" using Cons.prems(1) r e by simp
    then show ?thesis
      unfolding r e lmp_rows_simps
      by (simp add: lmp_rows_other [OF assms(1)] scan_row_map_of [OF assms(1)])
  qed
qed

text \<open>
  C8. \<open>lmp_mass_to_name\<close> has no failing branch: it returns a mapping, and the keys of
  the mapping are exactly the labels of the rows whose mass is within absolute tolerance
  0.01 of at least one element's reference mass. A row with no element within
  tolerance is left out.
\<close>

theorem lmp_mass_to_name_keys:
  assumes "table_bounded tbl"
  shows "set (map fst (lmp_mass_to_name tbl df)) =
    set (map fst (filter (\<lambda>(row, mass). list_ex (within_tol (1 / 100) mass) tbl) df))"
proof -
  have "matching (1 / 100) tbl mass \<noteq> [] \<longleftrightarrow> list_ex (within_tol (1 / 100) mass) tbl"
    for mass
    by (simp add: matching_def filter_empty_conv list_ex_iff)
  then show ?thesis
    using lmp_rows_keys [OF assms, of df "[]"]
    by (auto simp: lmp_mass_to_name_rows dom_map_of_conv_image_fst image_iff)
qed

theorem lmp_mass_to_name_keys_witness:
  "table_bounded [(''H'', 1), (''Cm'', 247), (''Bk'', 247)]
   \<and> set (map fst (lmp_mass_to_name [(''H'', 1), (''Cm'', 247), (''Bk'', 247)]
                    [(1, 1), (2, 5), (3, 247)])) = {1, 3}"
proof -
  have b: "table_bounded [(''H'', 1), (''Cm'', 247), (''Bk'', 247)]"
    by (simp add: table_bounded_def)
  show ?thesis
    using b lmp_mass_to_name_keys [OF b, of "[(1, 1), (2, 5), (3, 247)]"]
    by (simp add: within_tol_def)
qed

text \<open>
  C10. A row whose mass is within absolute tolerance 0.01 of more than one element is
  mapped to the last of these elements in table order: every later match overwrites
  the earlier one. (The labels of the rows are distinct.)
\<close>

theorem lmp_mass_to_name_last_match:
  assumes "table_bounded tbl" and "distinct (map fst df)" and "(row, mass) \<in> set df"
    and "1 < length (matching (1 / 100) tbl mass)"
  shows "map_of (lmp_mass_to_name tbl df) row = Some (fst (last (matching (1 / 100) tbl mass)))"
proof -
  from assms(4) have "matching (1 / 100) tbl mass \<noteq> []" by auto
  with lmp_rows_value [OF assms(1-3), of "[]"] show ?thesis
    by (simp add: lmp_mass_to_name_rows)
qed

theorem lmp_mass_to_name_last_match_witness:
  "table_bounded [(''H'', 1), (''Cm'', 247), (''Bk'', 247)]
   \<and> distinct (map fst [(1 :: int, 1), (2, 5), (3, 247 :: real)])
   \<and> (3, 247) \<in> set [(1 :: int, 1), (2, 5), (3, 247 :: real)]
   \<and> matching (1 / 100) [(''H'', 1), (''Cm'', 247), (''Bk'', 247)] 247 = [(''Cm'', 247), (''Bk'', 247)]
   \<and> map_of (lmp_mass_to_name [(''H'', 1), (''Cm'', 247), (''Bk'', 247)] [(1, 1), (2, 5), (3, 247)]) 3
       = Some ''Bk''"
proof -
  have b: "table_bounded [(''H'', 1), (''Cm'', 247), (''Bk'', 247)]"
    by (simp add: table_bounded_def)
  have d: "distinct (map fst [(1 :: int, 1), (2, 5), (3, 247 :: real)])" by simp
  have i: "(3, 247) \<in> set [(1 :: int, 1), (2, 5), (3, 247 :: real)]" by simp
  have m: "matching (1 / 100) [(''H'', 1), (''Cm'', 247), (''Bk'', 247)] 247
      = [(''Cm'', 247), (''Bk'', 247)]"
    by (simp add: matching_def within_tol_def)
  have l: "1 < length (matching (1 / 100) [(''H'', 1), (''Cm'', 247), (''Bk'', 247)] 247)"
    by (simp add: m)
  show ?thesis
    using b d i m lmp_mass_to_name_last_match [OF b d i l] by simp
qed

subsection \<open>Strings\<close>

text \<open>Printing a natural number and reading it back.\<close>

lemma digit_val_digits: "n < 10 \<Longrightarrow> digit_val (digits ! n) = n \<and> is_digit (digits ! n)"
proof -
  assume "n < 10"
  then have "n \<in> {0,1,2,3,4,5,6,7,8,9}" by auto
  then show ?thesis
    by (auto simp: digits_def digit_val_def is_digit_def)
qed

lemma str_nat_digits: "list_all is_digit (str_nat n) \<and> str_nat n \<noteq> []"
proof (induction n rule: str_nat.induct)
  case (1 n)
  then show ?case
    by (subst (1 2) str_nat.simps) (auto simp: digit_val_digits)
qed

lemma nat_of_digits_snoc: "nat_of_digits (s @ [c]) = 10 * nat_of_digits s + digit_val c"
  by (simp add: nat_of_digits_def)

lemma nat_of_digits_str_nat: "nat_of_digits (str_nat n) = n"
proof (induction n rule: str_nat.induct)
  case (1 n)
  show ?case
  proof (cases "n < 10")
    case True
    then show ?thesis
      by (subst str_nat.simps) (simp add: nat_of_digits_def digit_val_digits)
  next
    case False
    with 1 show ?thesis
      by (subst str_nat.simps) (simp add: nat_of_digits_snoc digit_val_digits)
  qed
qed

lemma isnumeric_str_nat: "isnumeric (str_nat n)"
  by (simp add: isnumeric_def str_nat_digits)

lemma digits_underscores_all: "list_all is_digit s \<Longrightarrow> digits_underscores s"
  by (induction s) auto

lemma int_literal_isnumeric: "isnumeric s \<Longrightarrow> int_literal s"
  by (cases s) (auto simp: isnumeric_def int_literal_def digits_underscores_all)

lemma py_int_isnumeric: "isnumeric s \<Longrightarrow> py_int s = Some (int (nat_of_digits s))"
  by (simp add: py_int_def int_literal_isnumeric isnumeric_def filter_id_conv list_all_iff)

lemma py_int_str_nat: "py_int (str_nat n) = Some (int n)"
  by (simp add: py_int_isnumeric isnumeric_str_nat nat_of_digits_str_nat)

subsection \<open>Residue ranges\<close>

lemma datafile_loop_errors:
  "datafile_loop it st = Inl e \<Longrightarrow> e = StopIteration \<or> e = ValueError_int"
proof (induction it st rule: datafile_loop.induct)
  case (1 st)
  then show ?case by simp
next
  case (2 num it st)
  show ?case
  proof (cases "datafile_step num it st")
    case (Inl e')
    with "2.prems" have "e' = e" by simp
    with Inl show ?thesis
      by (auto elim!: datafile_step.elims split: if_splits list.splits option.splits)
  next
    case (Inr r)
    with 2 show ?thesis by (cases r) auto
  qed
qed

lemma datafile_loop_well_grouped:
  "(\<exists>d. datafile_loop it st = Inr d) \<longleftrightarrow> well_grouped it"
proof (induction it arbitrary: st rule: well_grouped.induct)
  case 1
  then show ?case by simp
next
  case (2 num)
  then show ?case by simp
next
  case (3 num name it)
  show ?case
  proof (cases "isnumeric name")
    case True
    show ?thesis
    proof (cases it)
      case Nil
      with True show ?thesis by simp
    next
      case (Cons name' it')
      with True 3(1) [of name' it'] show ?thesis
        by (auto simp: py_int_def split: option.splits)
    qed
  next
    case False
    with 3(2) show ?thesis
      by (auto simp: py_int_def split: option.splits)
  qed
qed

text \<open>
  C5. When the loop of \<open>res_dict_from_datafile\<close> takes a count token of value \<open>N\<close> followed
  by the numeral 2 and the label EC, with the cursor at \<open>s\<close>, it records exactly the two
  entries ECa, "same mass as resid s", and ECb, "same mass as resid s+1", and moves
  the cursor to \<open>s + 2N\<close>. When the count is followed by a label \<open>L\<close> that is not numeric,
  it records \<open>L\<close>, "resid s-(s+N-1)", and moves the cursor to \<open>s + N\<close>.
\<close>

theorem datafile_step_groups:
  assumes "py_int num = Some N"
  shows "datafile_step num (''2'' # ''EC'' # it) (s, d) =
           Inr ((s + 2 * N,
                 AList.update ''ECb'' (''same mass as resid '' @ str_int (s + 1))
                   (AList.update ''ECa'' (''same mass as resid '' @ str_int s) d)), it)
         \<and> (\<not> isnumeric L \<longrightarrow>
              datafile_step num (L # it) (s, d) =
                Inr ((s + N, AList.update L (''resid '' @ str_int s @ ''-'' @ str_int (s + N - 1)) d),
                     it))"
proof -
  have n: "isnumeric ''2''" and v: "nat_of_digits ''2'' = 2"
    by (simp_all add: isnumeric_def is_digit_def digits_def nat_of_digits_def digit_val_def)
  have sl: "py_slice0 2 ascii_lowercase = ''ab''"
    by (simp add: py_slice0_def ascii_lowercase_def)
  show ?thesis
    using assms by (simp add: n v sl branched_group_def plain_group_def Let_def)
qed

theorem datafile_step_groups_witness:
  "py_int ''3'' = Some 3
   \<and> datafile_step ''3'' [''2'', ''EC'', ''5'', ''LiPF6''] (11, [(''DMC'', ''resid 1-10'')]) =
       Inr ((17, [(''DMC'', ''resid 1-10''), (''ECa'', ''same mass as resid 11''),
                  (''ECb'', ''same mass as resid 12'')]), [''5'', ''LiPF6''])
   \<and> \<not> isnumeric ''EC''
   \<and> datafile_step ''3'' [''EC'', ''5'', ''LiPF6''] (11, [(''DMC'', ''resid 1-10'')]) =
       Inr ((14, [(''DMC'', ''resid 1-10''), (''EC'', ''resid 11-13'')]), [''5'', ''LiPF6''])"
proof -
  have p: "py_int ''3'' = Some 3"
    by (simp add: py_int_def int_literal_def is_digit_def digits_def nat_of_digits_def digit_val_def)
  have l: "\<not> isnumeric ''EC''"
    by (simp add: isnumeric_def is_digit_def digits_def)
  have s: "str_int 11 = ''11''" "str_int 12 = ''12''" "str_int 13 = ''13''"
    by (simp_all add: str_int_def str_nat.simps digits_def)
  show ?thesis
    using p l datafile_step_groups [OF p, of "[''5'', ''LiPF6'']" 11 "[(''DMC'', ''resid 1-10'')]" "''EC''"]
    by (simp add: s)
qed

text \<open>
  C9, as stated, fails: a file whose first two lines conform, but whose second line
  holds a count and no label, ends in \<^verbatim>\<open>StopIteration\<close>, and no dictionary is produced.
\<close>

theorem res_dict_from_datafile_stop_counterexample:
  "conforming [generator_marker, ''# 3\<newline>'']
   \<and> res_dict_from_datafile [generator_marker, ''# 3\<newline>''] = Inl StopIteration"
  by (simp add: conforming_def res_dict_from_datafile_def startswith_def findall_w_def
      word_char_def ascii_lowercase_def ascii_uppercase_def digits_def)

text \<open>
  C9 (amended). \<open>res_dict_from_datafile\<close> raises the format \<^verbatim>\<open>ValueError\<close> exactly when
  the file has a first line that is not the generator marker, or has the marker and
  a second line that does not begin with \<^verbatim>\<open>#\<close>. A file with no line, or with the marker
  line only, raises \<^verbatim>\<open>IndexError\<close>. When the first two lines conform, the result is that
  of the loop over the tokens of the second line, started at cursor 1 with the empty
  dictionary: the format error is not raised, and a dictionary is produced exactly
  when the tokens are well grouped (otherwise the loop ends in \<^verbatim>\<open>StopIteration\<close> or in
  the \<^verbatim>\<open>ValueError\<close> of \<^verbatim>\<open>int\<close>, lemma \<open>datafile_loop_errors\<close>).
\<close>

theorem res_dict_from_datafile_errors:
  "(res_dict_from_datafile lines = Inl ValueError_format \<longleftrightarrow>
      \<not> conforming lines \<and> lines \<noteq> [] \<and> lines \<noteq> [generator_marker])
   \<and> (lines = [] \<or> lines = [generator_marker] \<longrightarrow> res_dict_from_datafile lines = Inl IndexError)
   \<and> (conforming lines \<longrightarrow>
        res_dict_from_datafile lines = datafile_loop (findall_w (lines ! 1)) (1, [])
        \<and> ((\<exists>res_dict. res_dict_from_datafile lines = Inr res_dict)
             \<longleftrightarrow> well_grouped (findall_w (lines ! 1))))"
proof -
  have no_fmt: "datafile_loop it st \<noteq> Inl ValueError_format" for it st
    using datafile_loop_errors [of it st ValueError_format] by auto
  have c: "res_dict_from_datafile lines = datafile_loop (findall_w (lines ! 1)) (1, [])"
    if "conforming lines"
    using that
    by (auto simp: conforming_def res_dict_from_datafile_def split: list.splits)
  have a: "res_dict_from_datafile lines = Inl ValueError_format \<longleftrightarrow>
      \<not> conforming lines \<and> lines \<noteq> [] \<and> lines \<noteq> [generator_marker]"
  proof (cases "conforming lines")
    case True
    with c no_fmt show ?thesis by simp
  next
    case False
    then show ?thesis
      by (auto simp: conforming_def res_dict_from_datafile_def split: list.splits)
  qed
  have b: "lines = [] \<or> lines = [generator_marker] \<longrightarrow> res_dict_from_datafile lines = Inl IndexError"
    by (auto simp: res_dict_from_datafile_def)
  from a b c show ?thesis
    by (simp add: datafile_loop_well_grouped)
qed

theorem res_dict_from_datafile_errors_witness:
  "conforming [generator_marker, ''# 3 EC\<newline>'']
   \<and> well_grouped (findall_w (''# 3 EC\<newline>''))
   \<and> res_dict_from_datafile [generator_marker, ''# 3 EC\<newline>''] = Inr [(''EC'', ''resid 1-3'')]
   \<and> res_dict_from_datafile [] = Inl IndexError
   \<and> res_dict_from_datafile [''# 3 EC\<newline>''] = Inl ValueError_format"
proof -
  let ?lines = "[generator_marker, ''# 3 EC\<newline>'']"
  have t: "findall_w (''# 3 EC\<newline>'') = [''3'', ''EC'']"
    by (simp add: findall_w_def word_char_def ascii_lowercase_def ascii_uppercase_def digits_def)
  have c: "conforming ?lines"
    by (simp add: conforming_def startswith_def)
  have w: "well_grouped [''3'', ''EC'']"
    by (simp add: int_literal_def isnumeric_def is_digit_def digits_def)
  have p: "py_int ''3'' = Some 3"
    by (simp add: py_int_def int_literal_def is_digit_def digits_def nat_of_digits_def digit_val_def)
  have l: "\<not> isnumeric ''EC''"
    by (simp add: isnumeric_def is_digit_def digits_def)
  have s: "str_int 1 = ''1''" "str_int 3 = ''3''"
    by (simp_all add: str_int_def str_nat.simps digits_def)
  have r: "datafile_loop [''3'', ''EC''] (1, []) = Inr [(''EC'', ''resid 1-3'')]"
    by (simp add: p l s plain_group_def)
  have g: "[''# 3 EC\<newline>''] \<noteq> [generator_marker]"
    by (simp add: generator_marker_def)
  have nc: "\<not> conforming [''# 3 EC\<newline>'']"
    by (simp add: conforming_def)
  have w': "well_grouped (findall_w (''# 3 EC\<newline>''))"
    unfolding t by (rule w)
  from res_dict_from_datafile_errors [of ?lines] c
  have "res_dict_from_datafile ?lines = datafile_loop (findall_w (?lines ! 1)) (1, [])"
    by blast
  then have 1: "res_dict_from_datafile ?lines = Inr [(''EC'', ''resid 1-3'')]"
    using t r by simp
  from res_dict_from_datafile_errors [of "[]"]
  have 2: "res_dict_from_datafile [] = Inl IndexError"
    by blast
  from res_dict_from_datafile_errors [of "[''# 3 EC\<newline>'']"] nc g
  have 3: "res_dict_from_datafile [''# 3 EC\<newline>''] = Inl ValueError_format"
    by blast
  from c w' 1 2 3 show ?thesis by (intro conjI)
qed

lemma datafile_step_plain_group:
  assumes "\<not> isnumeric (label g)" and "mult g = None"
  shows "datafile_step (str_nat (count g)) (label g # it) st =
           Inr (plain_group (label g) (int (count g)) st, it)"
  using assms by (simp add: py_int_str_nat)

lemma datafile_step_branched_group:
  assumes "mult g = Some f"
  shows "datafile_step (str_nat (count g)) (str_nat f # label g # it) st =
           Inr (branched_group (label g) (int (count g)) (int f) st, it)"
  by (simp add: py_int_str_nat isnumeric_str_nat nat_of_digits_str_nat)

lemma datafile_loop_header_tokens:
  assumes "unambiguous gs"
  shows "datafile_loop (header_tokens gs) st =
     Inr (snd (fold lammpsdata_group
       (zip (map label gs) (zip (map (\<lambda>g. int (count g)) gs) (map frag_of gs))) st))"
  using assms
proof (induction gs arbitrary: st)
  case Nil
  then show ?case by (simp add: header_tokens_def)
next
  case (Cons g gs)
  then have u: "unambiguous gs" and l: "mult g = None \<longrightarrow> \<not> isnumeric (label g)"
    and m: "mult g \<noteq> Some 1"
    by (simp_all add: unambiguous_def)
  have h: "header_tokens (g # gs) = group_tokens g @ header_tokens gs"
    by (simp add: header_tokens_def)
  show ?case
  proof (cases "mult g")
    case None
    then show ?thesis
      using l Cons.IH [OF u]
      by (simp add: h group_tokens_def py_int_str_nat lammpsdata_group_def frag_of_def)
  next
    case (Some f)
    with m have "int f \<noteq> 1" by auto
    with Some show ?thesis
      using Cons.IH [OF u]
      by (simp add: h group_tokens_def py_int_str_nat isnumeric_str_nat nat_of_digits_str_nat
          lammpsdata_group_def frag_of_def)
  qed
qed

lemma fold_plain_groups:
  assumes "list_all (\<lambda>g. mult g = None) gs"
  shows "fold (\<lambda>(name, num) st. plain_group name num st)
           (zip (map label gs) (map (\<lambda>g. int (count g)) gs)) st
       = fold lammpsdata_group
           (zip (map label gs) (zip (map (\<lambda>g. int (count g)) gs) (map frag_of gs))) st"
  using assms
  by (induction gs arbitrary: st) (simp_all add: lammpsdata_group_def frag_of_def)

lemma findall_from_words:
  assumes "list_all word_char cur" and "t \<in> set (findall_from cur s)"
  shows "t \<noteq> [] \<and> list_all word_char t"
  using assms
proof (induction s arbitrary: cur)
  case Nil
  then show ?case by (auto split: if_splits)
next
  case (Cons c s)
  show ?case
  proof (cases "word_char c")
    case True
    with Cons.prems have "list_all word_char (cur @ [c])" and "t \<in> set (findall_from (cur @ [c]) s)"
      by simp_all
    then show ?thesis by (rule Cons.IH)
  next
    case False
    with Cons.prems have "t \<in> set (if cur = [] then [] else [cur]) \<or> t \<in> set (findall_from [] s)"
      by simp
    then show ?thesis
    proof
      assume "t \<in> set (if cur = [] then [] else [cur])"
      with Cons.prems(1) show ?thesis by (auto split: if_splits)
    next
      assume "t \<in> set (findall_from [] s)"
      with Cons.IH [of "[]"] show ?thesis by simp
    qed
  qed
qed

lemma file_encodes_word_labels:
  assumes "file_encodes lines gs"
  shows "list_all (\<lambda>g. label g \<noteq> [] \<and> list_all word_char (label g)) gs"
proof -
  from assms obtain line1 where toks: "findall_w line1 = header_tokens gs"
    by (auto simp: file_encodes_def split: list.splits)
  have "label g \<noteq> [] \<and> list_all word_char (label g)" if "g \<in> set gs" for g
  proof -
    have "label g \<in> set (group_tokens g)"
      by (simp add: group_tokens_def split: option.splits)
    with that have "label g \<in> set (header_tokens gs)"
      by (auto simp: header_tokens_def)
    then have "label g \<in> set (findall_from [] line1)"
      by (simp add: toks [symmetric] findall_w_def)
    with findall_from_words [of "[]" "label g" line1] show ?thesis by simp
  qed
  then show ?thesis by (simp add: list_all_iff)
qed

text \<open>
  C4, as stated, fails, in three ways.
  \<^item> For the group of count 3, multiplicity 1 and label EC, the file parser sees a
    numeric second token and records the branched entry ECa, while the array parser
    sees \<^verbatim>\<open>frag == 1\<close> and records the range of EC.
  \<^item> For the group of count 3, no multiplicity and the numeric label 7, the file parser
    takes the label for a multiplicity, finds no label after it and ends in
    \<^verbatim>\<open>StopIteration\<close>, while the array parser records the range of 7.
  \<^item> A label that is not one run of word characters is not a token of the header: for
    the label Li+ written into the second line, the file parser records the range
    under the key Li, the array parser under the key Li+.
\<close>

theorem res_dict_entry_points_differ_counterexample:
  "file_encodes [generator_marker, ''# 3 1 EC\<newline>''] [Group 3 (Some 1) ''EC'']
   \<and> data_encodes \<lparr>names = [''EC''], nums = [3], frags = Some [1]\<rparr> [Group 3 (Some 1) ''EC'']
   \<and> res_dict_from_datafile [generator_marker, ''# 3 1 EC\<newline>'']
       = Inr [(''ECa'', ''same mass as resid 1'')]
   \<and> res_dict_from_lammpsdata \<lparr>names = [''EC''], nums = [3], frags = Some [1]\<rparr>
       = [(''EC'', ''resid 1-3'')]
   \<and> file_encodes [generator_marker, ''# 3 7\<newline>''] [Group 3 None ''7'']
   \<and> data_encodes \<lparr>names = [''7''], nums = [3], frags = Some [1]\<rparr> [Group 3 None ''7'']
   \<and> res_dict_from_datafile [generator_marker, ''# 3 7\<newline>''] = Inl StopIteration
   \<and> res_dict_from_lammpsdata \<lparr>names = [''7''], nums = [3], frags = Some [1]\<rparr>
       = [(''7'', ''resid 1-3'')]
   \<and> res_dict_from_datafile [generator_marker, ''# 3 Li+\<newline>'']
       = Inr [(''Li'', ''resid 1-3'')]
   \<and> res_dict_from_lammpsdata \<lparr>names = [''Li+''], nums = [3], frags = Some [1]\<rparr>
       = [(''Li+'', ''resid 1-3'')]"
proof -
  have t: "findall_w (''# 3 1 EC\<newline>'') = [''3'', ''1'', ''EC'']"
    "findall_w (''# 3 7\<newline>'') = [''3'', ''7'']"
    "findall_w (''# 3 Li+\<newline>'') = [''3'', ''Li'']"
    by (simp_all add: findall_w_def word_char_def ascii_lowercase_def ascii_uppercase_def digits_def)
  have s: "str_nat 3 = ''3''" "str_nat (Suc 0) = ''1''" "str_int 1 = ''1''" "str_int 3 = ''3''"
    by (simp_all add: str_int_def str_nat.simps digits_def)
  have p: "py_int ''3'' = Some 3"
    by (simp add: py_int_def int_literal_def is_digit_def digits_def nat_of_digits_def digit_val_def)
  have n: "isnumeric ''1''" "nat_of_digits ''1'' = 1" "isnumeric ''7''" "\<not> isnumeric ''Li''"
    by (simp_all add: isnumeric_def is_digit_def digits_def nat_of_digits_def digit_val_def)
  have sl: "py_slice0 1 ascii_lowercase = ''a''"
    by (simp add: py_slice0_def ascii_lowercase_def)
  have 1: "file_encodes [generator_marker, ''# 3 1 EC\<newline>''] [Group 3 (Some 1) ''EC'']"
    by (simp add: file_encodes_def startswith_def t header_tokens_def group_tokens_def s)
  have 2: "data_encodes \<lparr>names = [''EC''], nums = [3], frags = Some [1]\<rparr> [Group 3 (Some 1) ''EC'']"
    by (simp add: data_encodes_def frag_of_def)
  have 3: "res_dict_from_datafile [generator_marker, ''# 3 1 EC\<newline>'']
       = Inr [(''ECa'', ''same mass as resid 1'')]"
    by (simp add: res_dict_from_datafile_def startswith_def t p n sl branched_group_def s)
  have 4: "res_dict_from_lammpsdata \<lparr>names = [''EC''], nums = [3], frags = Some [1]\<rparr>
       = [(''EC'', ''resid 1-3'')]"
    by (simp add: res_dict_from_lammpsdata_def lammpsdata_group_def plain_group_def s)
  have 5: "file_encodes [generator_marker, ''# 3 7\<newline>''] [Group 3 None ''7'']"
    by (simp add: file_encodes_def startswith_def t header_tokens_def group_tokens_def s)
  have 6: "data_encodes \<lparr>names = [''7''], nums = [3], frags = Some [1]\<rparr> [Group 3 None ''7'']"
    by (simp add: data_encodes_def frag_of_def)
  have 7: "res_dict_from_datafile [generator_marker, ''# 3 7\<newline>''] = Inl StopIteration"
    by (simp add: res_dict_from_datafile_def startswith_def t n)
  have 8: "res_dict_from_lammpsdata \<lparr>names = [''7''], nums = [3], frags = Some [1]\<rparr>
       = [(''7'', ''resid 1-3'')]"
    by (simp add: res_dict_from_lammpsdata_def lammpsdata_group_def plain_group_def s)
  have 9: "res_dict_from_datafile [generator_marker, ''# 3 Li+\<newline>'']
       = Inr [(''Li'', ''resid 1-3'')]"
    by (simp add: res_dict_from_datafile_def startswith_def t p n plain_group_def s)
  have 10: "res_dict_from_lammpsdata \<lparr>names = [''Li+''], nums = [3], frags = Some [1]\<rparr>
       = [(''Li+'', ''resid 1-3'')]"
    by (simp add: res_dict_from_lammpsdata_def lammpsdata_group_def plain_group_def s)
  from 1 2 3 4 5 6 7 8 9 10 show ?thesis by (intro conjI)
qed

text \<open>
  C4 (amended). For every sequence of groups in which no multiplicity is 1 and no
  group without a multiplicity has a numeric label, a file and a \<^verbatim>\<open>CombinedData\<close>
  object that encode the sequence give the same dictionary: the same keys with the
  same values in the same order, and the file parser raises no error. (That the file
  encodes the sequence makes every label one token of its second line.)
\<close>

theorem res_dict_entry_points_agree:
  assumes "file_encodes lines gs" and "data_encodes lammps_data gs" and "unambiguous gs"
  shows "res_dict_from_datafile lines = Inr (res_dict_from_lammpsdata lammps_data)"
proof -
  from assms(1) obtain line0 line1 rest where
    lines: "lines = line0 # line1 # rest" and
    pre: "line0 = generator_marker" "startswith line1 ''#''" and
    toks: "findall_w line1 = header_tokens gs"
    by (auto simp: file_encodes_def split: list.splits)
  have fl: "res_dict_from_datafile lines = datafile_loop (header_tokens gs) (1, [])"
    by (simp add: res_dict_from_datafile_def lines pre toks)
  let ?loop = "fold lammpsdata_group
       (zip (map label gs) (zip (map (\<lambda>g. int (count g)) gs) (map frag_of gs))) (1, [])"
  have "res_dict_from_lammpsdata lammps_data = snd ?loop"
  proof (cases "frags lammps_data")
    case None
    with assms(2) have "list_all (\<lambda>g. mult g = None) gs"
      by (simp add: data_encodes_def)
    from fold_plain_groups [OF this] None assms(2) show ?thesis
      by (simp add: res_dict_from_lammpsdata_def data_encodes_def)
  next
    case (Some fs)
    with assms(2) show ?thesis
      by (simp add: res_dict_from_lammpsdata_def data_encodes_def)
  qed
  with fl datafile_loop_header_tokens [OF assms(3)] show ?thesis by simp
qed

theorem res_dict_entry_points_agree_witness:
  "file_encodes [generator_marker, ''# 10 EC + 5(2) LiPF6 + 3(2) 12\<newline>'']
      [Group 10 None ''EC'', Group 5 (Some 2) ''LiPF6'', Group 3 (Some 2) ''12'']
   \<and> data_encodes \<lparr>names = [''EC'', ''LiPF6'', ''12''], nums = [10, 5, 3], frags = Some [1, 2, 2]\<rparr>
      [Group 10 None ''EC'', Group 5 (Some 2) ''LiPF6'', Group 3 (Some 2) ''12'']
   \<and> unambiguous [Group 10 None ''EC'', Group 5 (Some 2) ''LiPF6'', Group 3 (Some 2) ''12'']
   \<and> res_dict_from_datafile [generator_marker, ''# 10 EC + 5(2) LiPF6 + 3(2) 12\<newline>'']
       = Inr (res_dict_from_lammpsdata
                \<lparr>names = [''EC'', ''LiPF6'', ''12''], nums = [10, 5, 3], frags = Some [1, 2, 2]\<rparr>)
   \<and> res_dict_from_lammpsdata
         \<lparr>names = [''EC'', ''LiPF6'', ''12''], nums = [10, 5, 3], frags = Some [1, 2, 2]\<rparr>
       = [(''EC'', ''resid 1-10''), (''LiPF6a'', ''same mass as resid 11''),
          (''LiPF6b'', ''same mass as resid 12''), (''12a'', ''same mass as resid 21''),
          (''12b'', ''same mass as resid 22'')]"
proof -
  let ?gs = "[Group 10 None ''EC'', Group 5 (Some 2) ''LiPF6'', Group 3 (Some 2) ''12'']"
  let ?cd = "\<lparr>names = [''EC'', ''LiPF6'', ''12''], nums = [10, 5, 3], frags = Some [1, 2, 2]\<rparr>"
  have t: "findall_w (''# 10 EC + 5(2) LiPF6 + 3(2) 12\<newline>'')
      = [''10'', ''EC'', ''5'', ''2'', ''LiPF6'', ''3'', ''2'', ''12'']"
    by (simp add: findall_w_def word_char_def ascii_lowercase_def ascii_uppercase_def digits_def)
  have s: "str_nat 10 = ''10''" "str_nat 5 = ''5''" "str_nat 2 = ''2''" "str_nat 3 = ''3''"
    "str_int 1 = ''1''" "str_int 10 = ''10''" "str_int 11 = ''11''" "str_int 12 = ''12''"
    "str_int 21 = ''21''" "str_int 22 = ''22''"
    by (simp_all add: str_int_def str_nat.simps digits_def)
  have sl: "py_slice0 2 ascii_lowercase = ''ab''"
    by (simp add: py_slice0_def ascii_lowercase_def)
  have 1: "file_encodes [generator_marker, ''# 10 EC + 5(2) LiPF6 + 3(2) 12\<newline>''] ?gs"
    by (simp add: file_encodes_def startswith_def t header_tokens_def group_tokens_def s)
  have 2: "data_encodes ?cd ?gs"
    by (simp add: data_encodes_def frag_of_def)
  have 3: "unambiguous ?gs"
    by (simp add: unambiguous_def isnumeric_def is_digit_def digits_def)
  have 4: "res_dict_from_lammpsdata ?cd
       = [(''EC'', ''resid 1-10''), (''LiPF6a'', ''same mass as resid 11''),
          (''LiPF6b'', ''same mass as resid 12''), (''12a'', ''same mass as resid 21''),
          (''12b'', ''same mass as resid 22'')]"
    by (simp add: res_dict_from_lammpsdata_def lammpsdata_group_def plain_group_def
        branched_group_def sl s)
  from 1 2 3 4 res_dict_entry_points_agree [OF 1 2 3] show ?thesis by (intro conjI)
qed

subsection \<open>Residue selection from atom selection\<close>

lemma select_step_cases:
  "snd (select_step select_atoms (k, v) st) = AList.update k (expand v) (snd st)
   \<or> (k \<notin> set [''cation'', ''anion''] \<and> snd (select_step select_atoms (k, v) st) = snd st)"
  by (cases st) (simp add: select_step_def expand_def Let_def del: set_simps)

lemma select_step_ion:
  assumes "key \<in> set [''cation'', ''anion'']"
  shows "map_of (snd (select_step select_atoms (k, v) st)) key =
           (if k = key then Some (expand v) else map_of (snd st) key)"
proof (cases "k = key")
  case True
  with assms select_step_cases [of select_atoms k v st] show ?thesis
    by (auto simp add: update_conv' simp del: set_simps)
next
  case False
  with select_step_cases [of select_atoms k v st] show ?thesis
    by (auto simp add: update_conv' simp del: set_simps)
qed

lemma select_step_distinct:
  "distinct (map fst (snd st)) \<Longrightarrow> distinct (map fst (snd (select_step select_atoms e st)))"
  using select_step_cases [of select_atoms "fst e" "snd e" st]
  by (auto simp add: distinct_update simp del: set_simps)

lemma select_loop_ion:
  assumes "key \<in> set [''cation'', ''anion'']" and "distinct (map fst select_dict)"
  shows "map_of (snd (fold (select_step select_atoms) select_dict st)) key =
     (case map_of select_dict key of None \<Rightarrow> map_of (snd st) key | Some val \<Rightarrow> Some (expand val))"
  using assms(2)
proof (induction select_dict arbitrary: st)
  case Nil
  then show ?case by simp
next
  case (Cons e select_dict)
  obtain k v where e: "e = (k, v)" by (cases e)
  from Cons.prems e have d: "distinct (map fst select_dict)" and nk: "k \<notin> fst ` set select_dict"
    by auto
  show ?case
  proof (cases "k = key")
    case True
    with nk have "map_of select_dict key = None"
      by (simp add: map_of_eq_None_iff)
    with True show ?thesis
      by (simp add: e Cons.IH [OF d] select_step_ion [OF assms(1)] del: set_simps)
  next
    case False
    then show ?thesis
      by (simp add: e Cons.IH [OF d] select_step_ion [OF assms(1)] del: set_simps
          split: option.splits)
  qed
qed

lemma select_loop_distinct:
  "distinct (map fst (snd st)) \<Longrightarrow>
     distinct (map fst (snd (fold (select_step select_atoms) select_dict st)))"
  by (induction select_dict arbitrary: st) (simp_all add: select_step_distinct)

text \<open>
  C3. Let \<open>select_dict\<close> (a dictionary: its keys are distinct) hold a cation and an anion
  entry. When the residue-expanded selections of the two select the same atoms, the
  result has a salt key with the cation's expanded expression and neither a cation nor
  an anion key; when they differ, the result has both the cation and the anion key,
  each with its expanded expression. The keys of the result are distinct, so the salt
  key is single.
\<close>

theorem res_dict_from_select_dict_salt:
  assumes "distinct (map fst select_dict)"
    and "map_of select_dict ''cation'' = Some c"
    and "map_of select_dict ''anion'' = Some a"
  shows "(let res_dict = res_dict_from_select_dict select_atoms select_dict in
          distinct (map fst res_dict) \<and>
          (if select_atoms (expand c) = select_atoms (expand a)
           then map_of res_dict ''salt'' = Some (expand c)
              \<and> map_of res_dict ''cation'' = None \<and> map_of res_dict ''anion'' = None
           else map_of res_dict ''cation'' = Some (expand c)
              \<and> map_of res_dict ''anion'' = Some (expand a)))"
proof -
  let ?rd = "snd (fold (select_step select_atoms) select_dict ([], []))"
  have c: "map_of ?rd ''cation'' = Some (expand c)"
    using select_loop_ion [OF _ assms(1), of "''cation''" select_atoms "([], [])"] assms(2) by simp
  have a: "map_of ?rd ''anion'' = Some (expand a)"
    using select_loop_ion [OF _ assms(1), of "''anion''" select_atoms "([], [])"] assms(3) by simp
  have d: "distinct (map fst ?rd)"
    by (rule select_loop_distinct) simp
  have r: "res_dict_from_select_dict select_atoms select_dict =
      (if select_atoms (expand c) = select_atoms (expand a)
       then AList.update ''salt'' (expand c) (AList.delete ''cation'' (AList.delete ''anion'' ?rd))
       else ?rd)"
    using c a
    by (simp add: res_dict_from_select_dict_def split_beta)
  show ?thesis
    unfolding r Let_def using c a d
    by (simp add: update_conv' delete_conv' distinct_update distinct_delete)
qed

theorem res_dict_from_select_dict_salt_witness:
  "distinct (map fst [(''cation'', ''type Li''), (''EC'', ''type O''), (''anion'', ''type P'')])
   \<and> res_dict_from_select_dict (\<lambda>s. if s = expand ''type O'' then {1 :: nat} else {2, 3})
        [(''cation'', ''type Li''), (''EC'', ''type O''), (''anion'', ''type P'')]
      = [(''EC'', expand ''type O''), (''salt'', expand ''type Li'')]
   \<and> res_dict_from_select_dict (\<lambda>s. if s = expand ''type Li'' then {1 :: nat} else {2, 3})
        [(''cation'', ''type Li''), (''EC'', ''type O''), (''anion'', ''type P'')]
      = [(''cation'', expand ''type Li''), (''EC'', expand ''type O''),
         (''anion'', expand ''type P'')]"
proof -
  let ?sd = "[(''cation'', ''type Li''), (''EC'', ''type O''), (''anion'', ''type P'')]"
  let ?u1 = "\<lambda>s. if s = expand ''type O'' then {1 :: nat} else {2, 3}"
  let ?u2 = "\<lambda>s. if s = expand ''type Li'' then {1 :: nat} else {2, 3}"
  have d: "distinct (map fst ?sd)" by simp
  have c: "map_of ?sd ''cation'' = Some ''type Li''" by simp
  have a: "map_of ?sd ''anion'' = Some ''type P''" by simp
  have 1: "res_dict_from_select_dict ?u1 ?sd = [(''EC'', expand ''type O''), (''salt'', expand ''type Li'')]"
    by (simp add: res_dict_from_select_dict_def select_step_def expand_def)
  have 2: "res_dict_from_select_dict ?u2 ?sd = [(''cation'', expand ''type Li''), (''EC'', expand ''type O''),
         (''anion'', expand ''type P'')]"
    by (simp add: res_dict_from_select_dict_def select_step_def expand_def)
  from res_dict_from_select_dict_salt [OF d c a, of ?u1]
       res_dict_from_select_dict_salt [OF d c a, of ?u2] d 1 2
  show ?thesis by (intro conjI)
qed

subsection \<open>Species classification\<close>

subsubsection \<open>Center extraction\<close>

lemma fold_max_Max: "xs \<noteq> [] \<Longrightarrow> fold max xs (hd xs) = Max (set xs)"
proof (cases xs)
  case Nil
  assume "xs \<noteq> []"
  with Nil show ?thesis by simp
next
  case (Cons y ys)
  have "Max (set (y # ys)) = fold max ys y" by (rule Max.set_eq_fold)
  with Cons show ?thesis by simp
qed

lemma fold_min_Min: "xs \<noteq> [] \<Longrightarrow> fold min xs (hd xs) = Min (set xs)"
proof (cases xs)
  case Nil
  assume "xs \<noteq> []"
  with Nil show ?thesis by simp
next
  case (Cons y ys)
  have "Min (set (y # ys)) = fold min ys y" by (rule Min.set_eq_fold)
  with Cons show ?thesis by simp
qed

lemma argmax_first_index: "xs \<noteq> [] \<Longrightarrow> argmax xs = Inr (first_index xs (Max (set xs)))"
  by (simp add: argmax_def first_index_def fold_max_Max)

lemma argmin_first_index: "xs \<noteq> [] \<Longrightarrow> argmin xs = Inr (first_index xs (Min (set xs)))"
  by (simp add: argmin_def first_index_def fold_min_Min)

lemma first_index_less: "v \<in> set xs \<Longrightarrow> first_index xs v < length xs"
  unfolding first_index_def by (induction xs) auto

lemma nth_first_index: "v \<in> set xs \<Longrightarrow> xs ! first_index xs v = v"
  unfolding first_index_def by (induction xs) auto

lemma nth_first_index_map:
  "m \<in> f ` set xs \<Longrightarrow> xs ! first_index (map f xs) m = hd (filter (\<lambda>x. f x = m) xs)"
  unfolding first_index_def by (induction xs) auto

lemma uni_center_rarest:
  assumes "types \<noteq> []"
  shows "argmin (snd (np_unique_counts types))
           = Inr (first_index (snd (np_unique_counts types))
                    (Min (set (map (count_list types) types))))"
    and "fst (np_unique_counts types)
           ! first_index (snd (np_unique_counts types)) (Min (set (map (count_list types) types)))
         = rarest_type types"
proof -
  let ?u = "sort (remdups types)"
  let ?c = "map (count_list types) ?u"
  have s: "set ?c = set (map (count_list types) types)" by simp
  from assms have "set ?c \<noteq> {}" by simp
  then have ne: "?c \<noteq> []" by (metis set_empty)
  from argmin_first_index [OF ne] s
  show "argmin (snd (np_unique_counts types))
           = Inr (first_index (snd (np_unique_counts types))
                    (Min (set (map (count_list types) types))))"
    by (simp add: np_unique_counts_def np_unique_def)
  have "Min (set ?c) \<in> set ?c" using ne by (intro Min_in) auto
  then have "Min (set (map (count_list types) types)) \<in> count_list types ` set ?u"
    using s by simp
  from nth_first_index_map [OF this]
  show "fst (np_unique_counts types)
           ! first_index (snd (np_unique_counts types)) (Min (set (map (count_list types) types)))
         = rarest_type types"
    by (simp add: np_unique_counts_def np_unique_def rarest_type_def)
qed



lemma extremal_atom_charge:
  assumes "ion \<noteq> []"
  shows "atom_charge (extremal_atom positive ion) =
           (if positive then Max (set (map atom_charge ion)) else Min (set (map atom_charge ion)))"
proof -
  let ?cs = "map atom_charge ion"
  let ?v = "if positive then Max (set ?cs) else Min (set ?cs)"
  from assms have v: "?v \<in> set ?cs"
    by (auto intro!: Max_in Min_in)
  then have "first_index ?cs ?v < length ion"
    using first_index_less [of ?v ?cs] by simp
  then have "atom_charge (ion ! first_index ?cs ?v) = ?cs ! first_index ?cs ?v"
    by simp
  also have "\<dots> = ?v" using v by (rule nth_first_index)
  finally show ?thesis by (simp add: extremal_atom_def Let_def)
qed

lemma extract_atom_from_ion_general:
  assumes "ion \<noteq> []" and "length ion \<noteq> 1"
  shows "extract_atom_from_ion positive ion select_dict number =
     (let center = extremal_atom positive ion; uni_center = rarest_type (map atom_type ion)
      in if atom_type center = uni_center
         then Inr (AList.update (ion_name positive number) (''type '' @ uni_center) select_dict)
         else Inr (AList.update (ion_name positive number) (''type '' @ uni_center)
                (AList.update (ion_name positive number @ ''_'' @ atom_name center @ atom_type center)
                   (''type '' @ atom_type center) select_dict)))"
proof -
  from assms(1) have c: "map atom_charge ion \<noteq> []" and t: "map atom_type ion \<noteq> []"
    by simp_all
  obtain i1 where i1: "argmax (map atom_charge ion) = Inr i1" "ion ! i1 = extremal_atom True ion"
    using argmax_first_index [OF c] by (simp add: extremal_atom_def Let_def)
  obtain i2 where i2: "argmin (map atom_charge ion) = Inr i2" "ion ! i2 = extremal_atom False ion"
    using argmin_first_index [OF c] by (simp add: extremal_atom_def Let_def)
  obtain j where j: "argmin (snd (np_unique_counts (map atom_type ion))) = Inr j"
      "fst (np_unique_counts (map atom_type ion)) ! j = rarest_type (map atom_type ion)"
    using uni_center_rarest [OF t] by blast
  show ?thesis
  proof (cases positive)
    case True
    with assms(2) show ?thesis
      by (simp add: extract_atom_from_ion_def i1 j ion_name_def Let_def)
  next
    case False
    with assms(2) show ?thesis
      by (simp add: extract_atom_from_ion_def i2 j ion_name_def Let_def)
  qed
qed



subsubsection \<open>Classifier\<close>

lemma writer_Inl: "writer f \<Longrightarrow> f [] = Inl e \<Longrightarrow> f d = Inl e"
  unfolding writer_def by (drule spec [of _ d]) simp

lemma writer_Inr:
  "writer f \<Longrightarrow> f [] = Inr ups \<Longrightarrow>
     \<exists>d'. f d = Inr d' \<and> map_of d' = map_of d ++ map_of ups
        \<and> (distinct (map fst d) \<longrightarrow> distinct (map fst d'))"
  unfolding writer_def by (drule spec [of _ d]) simp

lemma writerI_Inl: "(\<And>d. f d = Inl e) \<Longrightarrow> writer f"
  by (simp add: writer_def)

lemma writerI_Inr:
  "f [] = Inr ups \<Longrightarrow>
   (\<And>d. \<exists>d'. f d = Inr d' \<and> map_of d' = map_of d ++ map_of ups
        \<and> (distinct (map fst d) \<longrightarrow> distinct (map fst d'))) \<Longrightarrow> writer f"
  by (simp add: writer_def)

lemma writer_update: "writer (\<lambda>d. Inr (AList.update k v d))"
  by (rule writerI_Inr [where ups = "[(k, v)]"])
     (simp_all add: update_conv' map_add_def fun_eq_iff distinct_update)

lemma writer_error: "writer (\<lambda>d. Inl e)"
  by (rule writerI_Inl) simp

lemma writer_id: "writer (\<lambda>d. Inr d)"
  by (rule writerI_Inr [where ups = "[]"]) simp_all

lemma writer_if: "writer f \<Longrightarrow> writer g \<Longrightarrow> writer (\<lambda>d. if c then f d else g d)"
  by (cases c) simp_all

lemma writer_bind:
  assumes "writer f" and "writer g"
  shows "writer (\<lambda>d. case f d of Inl e \<Rightarrow> Inl e | Inr d' \<Rightarrow> g d')"
proof (cases "f []")
  case (Inl e)
  have "(case f d of Inl e \<Rightarrow> Inl e | Inr d' \<Rightarrow> g d') = Inl e" for d
    using writer_Inl [OF assms(1) Inl, of d] by simp
  then show ?thesis by (rule writerI_Inl)
next
  case f0: (Inr u1)
  note f = writer_Inr [OF assms(1) f0]
  show ?thesis
  proof (cases "g []")
    case (Inl e)
    have "(case f d of Inl e \<Rightarrow> Inl e | Inr d' \<Rightarrow> g d') = Inl e" for d
    proof -
      from f [of d] obtain d1 where "f d = Inr d1" by blast
      with writer_Inl [OF assms(2) Inl, of d1] show ?thesis by simp
    qed
    then show ?thesis by (rule writerI_Inl)
  next
    case g0: (Inr u2)
    note g = writer_Inr [OF assms(2) g0]
    from g [of u1] obtain u12 where u12: "g u1 = Inr u12" "map_of u12 = map_of u1 ++ map_of u2"
      by blast
    show ?thesis
    proof (rule writerI_Inr [where ups = u12])
      show "(case f [] of Inl e \<Rightarrow> Inl e | Inr d' \<Rightarrow> g d') = Inr u12"
        by (simp add: f0 u12)
    next
      fix d
      from f [of d] obtain d1 where d1: "f d = Inr d1" "map_of d1 = map_of d ++ map_of u1"
        and dd1: "distinct (map fst d) \<longrightarrow> distinct (map fst d1)" by blast
      from g [of d1] obtain d2 where d2: "g d1 = Inr d2" "map_of d2 = map_of d1 ++ map_of u2"
        and dd2: "distinct (map fst d1) \<longrightarrow> distinct (map fst d2)" by blast
      have "map_of d2 = map_of d ++ map_of u12"
        by (simp add: d2 d1 u12)
      with d1 d2 dd1 dd2 show "\<exists>d'. (case f d of Inl e \<Rightarrow> Inl e | Inr d' \<Rightarrow> g d') = Inr d'
          \<and> map_of d' = map_of d ++ map_of u12
          \<and> (distinct (map fst d) \<longrightarrow> distinct (map fst d'))"
        by simp
    qed
  qed
qed

lemma writerD:
  assumes "writer f" and "f d = Inr d'"
  obtains ups where "f [] = Inr ups" and "map_of d' = map_of d ++ map_of ups"
proof (cases "f []")
  case (Inl e)
  from writer_Inl [OF assms(1) Inl, of d] assms(2) show ?thesis by simp
next
  case (Inr ups)
  from writer_Inr [OF assms(1) Inr, of d] assms(2) have "map_of d' = map_of d ++ map_of ups"
    by auto
  with Inr show ?thesis by (rule that)
qed

lemma writer_keys_grow:
  assumes "writer f" and "f d = Inr d'" and "k \<in> fst ` set d"
  shows "k \<in> fst ` set d'"
proof -
  from assms(1,2) obtain ups where "map_of d' = map_of d ++ map_of ups" by (rule writerD)
  then have "dom (map_of d') = dom (map_of d ++ map_of ups)" by (rule arg_cong)
  then have "dom (map_of d) \<subseteq> dom (map_of d')" by (simp only: dom_map_add Un_upper2)
  with assms(3) show ?thesis unfolding dom_map_of_conv_image_fst by blast
qed

lemma writer_key_kept:
  assumes "writer f" and "f d = Inr d'" and "f [] = Inr ups" and "k \<notin> fst ` set ups"
  shows "map_of d' k = map_of d k"
proof -
  from assms(1,2) obtain ups' where u: "f [] = Inr ups'" and m: "map_of d' = map_of d ++ map_of ups'"
    by (rule writerD)
  from u assms(3) have "ups' = ups" by simp
  with assms(4) have "map_of ups' k = None"
    by (simp add: map_of_eq_None_iff)
  then have "(map_of d ++ map_of ups') k = map_of d k"
    by (simp add: map_add_def)
  then show ?thesis by (simp only: m)
qed

lemma writer_extract_atom_from_molecule:
  "writer (\<lambda>d. extract_atom_from_molecule resname molecule d number)"
proof (cases "argmin (map atom_charge molecule)")
  case (Inl e)
  then show ?thesis by (simp add: extract_atom_from_molecule_def writer_error)
next
  case (Inr i)
  then show ?thesis by (simp add: extract_atom_from_molecule_def Let_def writer_update)
qed

lemma extract_atom_from_ion_single:
  "length ion = 1 \<Longrightarrow> extract_atom_from_ion positive ion d number =
     Inr (AList.update (ion_name positive number) (''type '' @ atom_type (ion ! 0)) d)"
  by (auto simp: extract_atom_from_ion_def ion_name_def Let_def length_Suc_conv)

lemma extract_atom_from_ion_empty:
  "extract_atom_from_ion positive [] d number = Inl ValueError_empty"
  by (simp add: extract_atom_from_ion_def argmax_def argmin_def)

lemma writer_update2: "writer (\<lambda>d. Inr (AList.update k v (AList.update k' v' d)))"
  using writer_bind [OF writer_update [of k' v'] writer_update [of k v]] by simp

lemma writer_extract_atom_from_ion: "writer (\<lambda>d. extract_atom_from_ion positive ion d number)"
proof (cases "ion = []")
  case True
  then show ?thesis by (simp add: extract_atom_from_ion_empty writer_error)
next
  case ne: False
  show ?thesis
  proof (cases "length ion = 1")
    case True
    then show ?thesis by (simp add: extract_atom_from_ion_single writer_update)
  next
    case False
    show ?thesis
      unfolding extract_atom_from_ion_general [OF ne False] Let_def
      by (rule writer_if) (rule writer_update writer_update2)+
  qed
qed

lemma writer_distinct:
  assumes "writer f" and "f d = Inr d'" and "distinct (map fst d)"
  shows "distinct (map fst d')"
proof (cases "f []")
  case (Inl e)
  from writer_Inl [OF assms(1) Inl, of d] assms(2) show ?thesis by simp
next
  case (Inr ups)
  from writer_Inr [OF assms(1) Inr, of d] assms(2,3) show ?thesis by auto
qed

lemma writer_two_fragments: "writer (two_fragments resname frs)"
proof (induction frs)
  case Nil
  have "two_fragments resname [] = (\<lambda>d. Inr d)" by (rule ext) simp
  then show ?case by (simp add: writer_id)
next
  case (Cons fr frs)
  obtain i frag where fr: "fr = (i, frag)" by (cases fr)
  let ?charge = "np_sum (map atom_charge frag)"
  let ?f = "\<lambda>d. if ?charge > 1 / 1000 then extract_atom_from_ion True frag d 0
               else if ?charge < - (1 / 1000) then extract_atom_from_ion False frag d 0
               else extract_atom_from_molecule resname frag d (int i + 1)"
  have e: "two_fragments resname (fr # frs) =
      (\<lambda>d. case ?f d of Inl e \<Rightarrow> Inl e | Inr d' \<Rightarrow> two_fragments resname frs d')"
    by (rule ext) (simp add: fr Let_def)
  have "writer ?f"
    by (intro writer_if writer_extract_atom_from_ion writer_extract_atom_from_molecule)
  from writer_bind [OF this Cons.IH] show ?case by (simp only: e)
qed

lemma writer_many_fragments: "writer (many_fragments resname frs numbers)"
proof (induction frs arbitrary: numbers)
  case Nil
  have "many_fragments resname [] numbers = (\<lambda>d. Inr d)" by (rule ext) simp
  then show ?case by (simp add: writer_id)
next
  case (Cons frag frs)
  obtain cn an mn where n: "numbers = (cn, an, mn)" by (cases numbers)
  let ?charge = "np_sum (map atom_charge frag)"
  have e: "many_fragments resname (frag # frs) numbers =
      (\<lambda>d. if ?charge > 1 / 1000 then
             (case extract_atom_from_ion True frag d cn of
                Inl e \<Rightarrow> Inl e | Inr d' \<Rightarrow> many_fragments resname frs (cn + 1, an, mn) d')
           else if ?charge < - (1 / 1000) then
             (case extract_atom_from_ion False frag d an of
                Inl e \<Rightarrow> Inl e | Inr d' \<Rightarrow> many_fragments resname frs (cn, an + 1, mn) d')
           else
             (case extract_atom_from_molecule resname frag d mn of
                Inl e \<Rightarrow> Inl e | Inr d' \<Rightarrow> many_fragments resname frs (cn, an, mn + 1) d'))"
    by (rule ext) (simp add: n Let_def)
  show ?case
    unfolding e
    by (intro writer_if writer_bind writer_extract_atom_from_ion
        writer_extract_atom_from_molecule Cons.IH)
qed

lemma writer_classify_residue: "writer (classify_residue resname residue)"
proof -
  have e: "classify_residue resname residue =
    (\<lambda>d. if \<bar>np_sum (map atom_charge (res_atoms residue)) - 0\<bar> \<le> 1 / 10 ^ 5 + 1 / 10 ^ 5 * \<bar>0\<bar> then
           if length (res_fragments residue) = 2 then
             two_fragments resname (enumerate 0 (res_fragments residue)) d
           else if length (res_fragments residue) \<ge> 2 then
             many_fragments resname (res_fragments residue) (1, 1, 1) d
           else extract_atom_from_molecule resname (res_atoms residue) d 0
         else if np_sum (map atom_charge (res_atoms residue)) > 0
           then extract_atom_from_ion True (res_atoms residue) d 0
         else extract_atom_from_ion False (res_atoms residue) d 0)"
    by (rule ext) (simp only: classify_residue_def Let_def)
  show ?thesis
    unfolding e
    by (intro writer_if writer_two_fragments writer_many_fragments
        writer_extract_atom_from_ion writer_extract_atom_from_molecule)
qed

lemma writer_resnames_loop: "writer (resnames_loop u resnames)"
proof (induction resnames)
  case Nil
  have "resnames_loop u [] = (\<lambda>d. Inr d)" by (rule ext) simp
  then show ?case by (simp add: writer_id)
next
  case (Cons resname resnames)
  show ?case
  proof (cases "resname = []")
    case True
    then have "resnames_loop u (resname # resnames) = resnames_loop u resnames"
      by (intro ext) simp
    with Cons.IH show ?thesis by simp
  next
    case ne: False
    show ?thesis
    proof (cases "first_residue u resname")
      case (Inl e)
      with ne have "resnames_loop u (resname # resnames) = (\<lambda>d. Inl e)"
        by (intro ext) simp
      then show ?thesis by (simp add: writer_error)
    next
      case (Inr residue)
      with ne have "resnames_loop u (resname # resnames) =
          (\<lambda>d. case classify_residue resname residue d of
                  Inl e \<Rightarrow> Inl e | Inr d' \<Rightarrow> resnames_loop u resnames d')"
        by (intro ext) simp
      with writer_bind [OF writer_classify_residue Cons.IH] show ?thesis by simp
    qed
  qed
qed

lemma extract_atom_from_ion_ok:
  assumes "ion \<noteq> []"
  shows "\<exists>d'. extract_atom_from_ion positive ion d number = Inr d'
           \<and> ion_name positive number \<in> fst ` set d'"
proof (cases "length ion = 1")
  case True
  then show ?thesis by (simp add: extract_atom_from_ion_single dom_update)
next
  case False
  show ?thesis
    by (simp add: extract_atom_from_ion_general [OF assms False] Let_def dom_update)
qed

lemma extract_atom_from_molecule_ok:
  assumes "molecule \<noteq> []"
  shows "extract_atom_from_molecule resname molecule d number =
     Inr (AList.update (if number > 0 then resname @ ''_'' @ str_int number else resname)
            (''type '' @ atom_type (extremal_atom False molecule)) d)"
proof -
  from assms have c: "map atom_charge molecule \<noteq> []" by simp
  show ?thesis
    by (simp add: extract_atom_from_molecule_def argmin_first_index [OF c] extremal_atom_def Let_def)
qed

lemma if3_ok:
  assumes "\<exists>x. a = Inr x" and "\<exists>x. b = Inr x" and "\<exists>x. c = Inr x"
  shows "\<exists>x. (if p then a else if q then b else c) = Inr x"
  using assms by simp

lemma two_fragments_ok:
  assumes "list_all (\<lambda>fr. snd fr \<noteq> []) frs"
  shows "\<exists>d'. two_fragments resname frs d = Inr d'"
  using assms
proof (induction frs arbitrary: d)
  case Nil
  then show ?case by simp
next
  case (Cons fr frs)
  obtain i frag where fr: "fr = (i, frag)" by (cases fr)
  with Cons.prems have ne: "frag \<noteq> []" and rest: "list_all (\<lambda>fr. snd fr \<noteq> []) frs"
    by simp_all
  let ?step = "if np_sum (map atom_charge frag) > 1 / 1000 then extract_atom_from_ion True frag d 0
               else if np_sum (map atom_charge frag) < - (1 / 1000)
                 then extract_atom_from_ion False frag d 0
               else extract_atom_from_molecule resname frag d (int i + 1)"
  have "\<exists>d1. ?step = Inr d1"
  proof (rule if3_ok)
    from extract_atom_from_ion_ok [OF ne, of True d 0]
    show "\<exists>x. extract_atom_from_ion True frag d 0 = Inr x" by blast
    from extract_atom_from_ion_ok [OF ne, of False d 0]
    show "\<exists>x. extract_atom_from_ion False frag d 0 = Inr x" by blast
    from extract_atom_from_molecule_ok [OF ne, of resname d "int i + 1"]
    show "\<exists>x. extract_atom_from_molecule resname frag d (int i + 1) = Inr x" by blast
  qed
  then obtain d1 where "?step = Inr d1" by blast
  with Cons.IH [OF rest, of d1] show ?case
    by (simp add: fr Let_def)
qed

lemma many_fragments_ok:
  assumes "list_all (\<lambda>frag. frag \<noteq> []) frs"
  shows "\<exists>d'. many_fragments resname frs numbers d = Inr d'"
  using assms
proof (induction frs arbitrary: d numbers)
  case Nil
  then show ?case by simp
next
  case (Cons frag frs)
  obtain cn an mn where n: "numbers = (cn, an, mn)" by (cases numbers)
  from Cons.prems have ne: "frag \<noteq> []" and rest: "list_all (\<lambda>frag. frag \<noteq> []) frs"
    by simp_all
  from extract_atom_from_ion_ok [OF ne, of True d cn] obtain d1
    where d1: "extract_atom_from_ion True frag d cn = Inr d1" by blast
  from extract_atom_from_ion_ok [OF ne, of False d an] obtain d2
    where d2: "extract_atom_from_ion False frag d an = Inr d2" by blast
  from extract_atom_from_molecule_ok [OF ne, of resname d mn] obtain d3
    where d3: "extract_atom_from_molecule resname frag d mn = Inr d3" by blast
  from Cons.IH [OF rest, of "(cn + 1, an, mn)" d1] Cons.IH [OF rest, of "(cn, an + 1, mn)" d2]
    Cons.IH [OF rest, of "(cn, an, mn + 1)" d3]
  show ?case
    by (simp add: n Let_def d1 d2 d3)
qed

lemma classify_residue_ok:
  assumes "res_atoms residue \<noteq> []" and "list_all (\<lambda>frag. frag \<noteq> []) (res_fragments residue)"
  shows "\<exists>d'. classify_residue resname residue d = Inr d'"
proof -
  from assms(2) have "list_all (\<lambda>fr. snd fr \<noteq> []) (enumerate 0 (res_fragments residue))"
    by (auto simp: list_all_iff in_set_enumerate_eq)
  from two_fragments_ok [OF this, of resname d]
    many_fragments_ok [OF assms(2), of resname "(1, 1, 1)" d]
    extract_atom_from_molecule_ok [OF assms(1), of resname d 0]
    extract_atom_from_ion_ok [OF assms(1), of True d 0]
    extract_atom_from_ion_ok [OF assms(1), of False d 0]
  show ?thesis
    unfolding classify_residue_def Let_def by (auto split: if_splits)
qed

lemma first_residue_in:
  assumes "first_residue u resname = Inr residue"
  shows "residue \<in> set u" and "res_name residue = resname" and "res_atoms residue \<noteq> []"
proof -
  from assms obtain rest where
    "filter (\<lambda>r. res_name r = resname \<and> res_atoms r \<noteq> []) u = residue # rest"
    by (auto simp: first_residue_def split: list.splits)
  then have "residue \<in> set (filter (\<lambda>r. res_name r = resname \<and> res_atoms r \<noteq> []) u)"
    by simp
  then show "residue \<in> set u" and "res_name residue = resname" and "res_atoms residue \<noteq> []"
    by simp_all
qed

lemma first_residue_ok:
  assumes "well_formed u" and "resname \<in> res_name ` set u"
  shows "\<exists>residue. first_residue u resname = Inr residue"
proof -
  from assms(2) obtain r where "r \<in> set u" and "res_name r = resname" by auto
  moreover from this assms(1) have "res_atoms r \<noteq> []"
    by (simp add: well_formed_def list_all_iff)
  ultimately have "r \<in> set (filter (\<lambda>r. res_name r = resname \<and> res_atoms r \<noteq> []) u)"
    by simp
  then have "filter (\<lambda>r. res_name r = resname \<and> res_atoms r \<noteq> []) u \<noteq> []"
    by (metis empty_iff empty_set)
  then show ?thesis
    by (simp add: first_residue_def split: list.splits)
qed

lemma resnames_loop_ok:
  assumes "well_formed u" and "set resnames \<subseteq> res_name ` set u"
  shows "\<exists>d'. resnames_loop u resnames d = Inr d'"
  using assms(2)
proof (induction resnames arbitrary: d)
  case Nil
  then show ?case by simp
next
  case (Cons resname resnames)
  then have rest: "set resnames \<subseteq> res_name ` set u" and here: "resname \<in> res_name ` set u"
    by simp_all
  show ?case
  proof (cases "resname = []")
    case True
    with Cons.IH [OF rest, of d] show ?thesis by simp
  next
    case False
    from first_residue_ok [OF assms(1) here] obtain residue
      where r: "first_residue u resname = Inr residue" by blast
    from first_residue_in [OF r] assms(1)
    have "res_atoms residue \<noteq> []" and "list_all (\<lambda>frag. frag \<noteq> []) (res_fragments residue)"
      by (simp_all add: well_formed_def list_all_iff)
    from classify_residue_ok [OF this, of resname d] obtain d1
      where "classify_residue resname residue d = Inr d1" by blast
    with Cons.IH [OF rest, of d1] r False show ?thesis by simp
  qed
qed

lemma resnames_loop_append:
  "resnames_loop u (xs @ ys) d =
     (case resnames_loop u xs d of Inl e \<Rightarrow> Inl e | Inr d' \<Rightarrow> resnames_loop u ys d')"
  by (induction xs arbitrary: d) (simp_all split: sum.splits)

lemma resnames_split:
  assumes "resname \<in> res_name ` set u"
  shows "np_unique (map res_name u) =
     takeWhile (\<lambda>x. x \<noteq> resname) (np_unique (map res_name u)) @ resname # later_resnames u resname"
proof -
  let ?xs = "np_unique (map res_name u)"
  from assms have "resname \<in> set ?xs" by (simp add: np_unique_def)
  then have ne: "dropWhile (\<lambda>x. x \<noteq> resname) ?xs \<noteq> []"
    by (simp add: dropWhile_eq_Nil_conv)
  then obtain y ys where dw: "dropWhile (\<lambda>x. x \<noteq> resname) ?xs = y # ys"
    by (metis neq_Nil_conv)
  from ne have "hd (dropWhile (\<lambda>x. x \<noteq> resname) ?xs) = resname"
    using hd_dropWhile [of "\<lambda>x. x \<noteq> resname" ?xs] by blast
  then have "y = resname" by (simp only: dw list.sel)
  then have "dropWhile (\<lambda>x. x \<noteq> resname) ?xs = resname # later_resnames u resname"
    by (simp add: later_resnames_def dw)
  then show ?thesis
    using takeWhile_dropWhile_id [of "\<lambda>x. x \<noteq> resname" ?xs] by simp
qed

lemma classify_residue_two_fragments:
  assumes "near_zero residue" and "res_fragments residue = [f1, f2]"
  shows "classify_residue resname residue d = two_fragments resname [(0, f1), (1, f2)] d"
  using assms by (simp add: classify_residue_def near_zero_def)

lemma classify_residue_single_fragment:
  assumes "near_zero residue" and "length (res_fragments residue) = 1" and "res_atoms residue \<noteq> []"
  shows "classify_residue resname residue d =
     Inr (AList.update resname (''type '' @ atom_type (extremal_atom False (res_atoms residue))) d)"
  using assms(1,2)
  by (simp add: classify_residue_def near_zero_def extract_atom_from_molecule_ok [OF assms(3)])

lemma two_fragments_ion_pair:
  assumes "f1 \<noteq> []" and "f2 \<noteq> []"
    and "frag_charge f1 = 1 \<and> frag_charge f2 = - 1 \<or> frag_charge f1 = - 1 \<and> frag_charge f2 = 1"
    and "two_fragments resname [(0, f1), (1, f2)] d = Inr d'"
  shows "''cation'' \<in> fst ` set d' \<and> ''anion'' \<in> fst ` set d'"
proof -
  have names: "ion_name True 0 = ''cation''" "ion_name False 0 = ''anion''"
    by (simp_all add: ion_name_def)
  from assms(3) show ?thesis
  proof
    assume c: "frag_charge f1 = 1 \<and> frag_charge f2 = - 1"
    from extract_atom_from_ion_ok [OF assms(1), of True d 0] obtain da
      where da: "extract_atom_from_ion True f1 d 0 = Inr da" "''cation'' \<in> fst ` set da"
      by (auto simp only: names)
    from extract_atom_from_ion_ok [OF assms(2), of False da 0] obtain db
      where db: "extract_atom_from_ion False f2 da 0 = Inr db" "''anion'' \<in> fst ` set db"
      by (auto simp only: names)
    from writer_keys_grow [OF writer_extract_atom_from_ion db(1) da(2)]
    have "''cation'' \<in> fst ` set db" .
    moreover from c da db assms(4) have "d' = db"
      by (simp add: frag_charge_def)
    ultimately show ?thesis using db(2) by simp
  next
    assume c: "frag_charge f1 = - 1 \<and> frag_charge f2 = 1"
    from extract_atom_from_ion_ok [OF assms(1), of False d 0] obtain da
      where da: "extract_atom_from_ion False f1 d 0 = Inr da" "''anion'' \<in> fst ` set da"
      by (auto simp only: names)
    from extract_atom_from_ion_ok [OF assms(2), of True da 0] obtain db
      where db: "extract_atom_from_ion True f2 da 0 = Inr db" "''cation'' \<in> fst ` set db"
      by (auto simp only: names)
    from writer_keys_grow [OF writer_extract_atom_from_ion db(1) da(2)]
    have "''anion'' \<in> fst ` set db" .
    moreover from c da db assms(4) have "d' = db"
      by (simp add: frag_charge_def)
    ultimately show ?thesis using db(2) by simp
  qed
qed

text \<open>
  C1 (amended). Let the universe be well formed, and let a non-empty resname have as
  its first residue a residue of near-zero total charge. Then \<open>select_dict_from_resname\<close>
  returns a dictionary (with distinct keys), and
  \<^item> if the residue has exactly two fragments, of net charges +1 and -1, the dictionary
    has a cation key and an anion key;
  \<^item> if the residue has a single fragment, classifying it records exactly one entry,
    the bare resname mapped to "type T", \<open>T\<close> the type of the residue's first atom of
    least charge; the returned dictionary has the resname as a key, and maps it to
    "type T" when no resname processed later records an entry under the same key.
\<close>

theorem select_dict_from_resname_neutral:
  assumes wf: "well_formed u" and ne: "resname \<noteq> []"
    and r: "first_residue u resname = Inr residue" and z: "near_zero residue"
  shows "(\<exists>select_dict. select_dict_from_resname u = Inr select_dict
           \<and> distinct (map fst select_dict)
           \<and> ((\<exists>f1 f2. res_fragments residue = [f1, f2]
                  \<and> (frag_charge f1 = 1 \<and> frag_charge f2 = - 1
                      \<or> frag_charge f1 = - 1 \<and> frag_charge f2 = 1))
                \<longrightarrow> ''cation'' \<in> fst ` set select_dict \<and> ''anion'' \<in> fst ` set select_dict)
           \<and> (length (res_fragments residue) = 1
                \<longrightarrow> resname \<in> fst ` set select_dict
                  \<and> (key_kept u resname
                       \<longrightarrow> map_of select_dict resname
                           = Some (''type '' @ atom_type (extremal_atom False (res_atoms residue))))))
         \<and> (length (res_fragments residue) = 1
              \<longrightarrow> (\<forall>d. classify_residue resname residue d
                     = Inr (AList.update resname
                              (''type '' @ atom_type (extremal_atom False (res_atoms residue))) d)))"
proof -
  let ?xs = "np_unique (map res_name u)"
  let ?pre = "takeWhile (\<lambda>x. x \<noteq> resname) ?xs"
  let ?post = "later_resnames u resname"
  let ?T = "''type '' @ atom_type (extremal_atom False (res_atoms residue))"
  note ri = first_residue_in [OF r]
  from ri have rn_in: "resname \<in> res_name ` set u" by blast
  from ri wf have frags: "list_all (\<lambda>frag. frag \<noteq> []) (res_fragments residue)"
    by (simp add: well_formed_def list_all_iff)
  note split = resnames_split [OF rn_in]
  have xs: "set ?xs = res_name ` set u" by (simp add: np_unique_def)
  have pre_sub: "set ?pre \<subseteq> res_name ` set u"
    using set_takeWhileD [of _ "\<lambda>x. x \<noteq> resname" ?xs] xs by blast
  have "set ?post \<subseteq> set (?pre @ resname # ?post)" by auto
  then have post_sub: "set ?post \<subseteq> res_name ` set u"
    unfolding split [symmetric] xs .
  from resnames_loop_ok [OF wf pre_sub, of "[]"] obtain d1
    where d1: "resnames_loop u ?pre [] = Inr d1" by blast
  from classify_residue_ok [OF ri(3) frags, of resname d1] obtain d2
    where d2: "classify_residue resname residue d1 = Inr d2" by blast
  from resnames_loop_ok [OF wf post_sub, of d2] obtain d3
    where d3: "resnames_loop u ?post d2 = Inr d3" by blast
  from resnames_loop_ok [OF wf post_sub, of "[]"] obtain later
    where later: "resnames_loop u ?post [] = Inr later" by blast
  have "resnames_loop u (?pre @ resname # ?post) [] = Inr d3"
    by (simp add: resnames_loop_append d1 ne r d2 d3)
  then have res: "select_dict_from_resname u = Inr d3"
    unfolding select_dict_from_resname_def split [symmetric] .
  have "distinct (map fst d1)"
    by (rule writer_distinct [OF writer_resnames_loop d1]) simp
  then have "distinct (map fst d2)"
    by (rule writer_distinct [OF writer_classify_residue d2])
  then have dist: "distinct (map fst d3)"
    by (rule writer_distinct [OF writer_resnames_loop d3])
  have pair: "''cation'' \<in> fst ` set d3 \<and> ''anion'' \<in> fst ` set d3"
    if "res_fragments residue = [f1, f2]"
      and "frag_charge f1 = 1 \<and> frag_charge f2 = - 1 \<or> frag_charge f1 = - 1 \<and> frag_charge f2 = 1"
    for f1 f2
  proof -
    from frags that(1) have "f1 \<noteq> []" and "f2 \<noteq> []" by simp_all
    moreover from d2 have "two_fragments resname [(0, f1), (1, f2)] d1 = Inr d2"
      by (simp only: classify_residue_two_fragments [OF z that(1)])
    ultimately have "''cation'' \<in> fst ` set d2 \<and> ''anion'' \<in> fst ` set d2"
      using that(2) by (intro two_fragments_ion_pair)
    then show ?thesis
      using writer_keys_grow [OF writer_resnames_loop d3] by blast
  qed
  have single: "resname \<in> fst ` set d3 \<and> (key_kept u resname \<longrightarrow> map_of d3 resname = Some ?T)"
    if l: "length (res_fragments residue) = 1"
  proof -
    from d2 have e: "d2 = AList.update resname ?T d1"
      by (simp add: classify_residue_single_fragment [OF z l ri(3)])
    then have "resname \<in> fst ` set d2" by (simp add: dom_update)
    from writer_keys_grow [OF writer_resnames_loop d3 this]
    have k: "resname \<in> fst ` set d3" .
    have "map_of d3 resname = Some ?T" if "key_kept u resname"
    proof -
      from that later have "resname \<notin> fst ` set later"
        by (simp add: key_kept_def)
      from writer_key_kept [OF writer_resnames_loop d3 later this]
      show ?thesis by (simp add: e update_conv')
    qed
    with k show ?thesis by blast
  qed
  have cls: "\<forall>d. classify_residue resname residue d = Inr (AList.update resname ?T d)"
    if l: "length (res_fragments residue) = 1"
    using classify_residue_single_fragment [OF z l ri(3)] by blast
  from res dist pair single cls show ?thesis by blast
qed

text \<open>
  C1, as stated, fails: a neutral one-fragment residue whose resname is "cation" gets
  the entry cation, "type o"; the residue "lithium", of charge +1 and processed after
  it, records its own entry under the key cation, and the dictionary returned maps
  the bare resname of the neutral residue to "type Li".
\<close>

theorem select_dict_from_resname_overwritten_counterexample:
  "well_formed
     [\<lparr>res_name = ''cation'',
       res_atoms = [\<lparr>atom_charge = 0, atom_type = ''o'', atom_name = ''O1''\<rparr>],
       res_fragments = [[\<lparr>atom_charge = 0, atom_type = ''o'', atom_name = ''O1''\<rparr>]]\<rparr>,
      \<lparr>res_name = ''lithium'',
       res_atoms = [\<lparr>atom_charge = 1, atom_type = ''Li'', atom_name = ''Li1''\<rparr>],
       res_fragments = [[\<lparr>atom_charge = 1, atom_type = ''Li'', atom_name = ''Li1''\<rparr>]]\<rparr>]
   \<and> first_residue
     [\<lparr>res_name = ''cation'',
       res_atoms = [\<lparr>atom_charge = 0, atom_type = ''o'', atom_name = ''O1''\<rparr>],
       res_fragments = [[\<lparr>atom_charge = 0, atom_type = ''o'', atom_name = ''O1''\<rparr>]]\<rparr>,
      \<lparr>res_name = ''lithium'',
       res_atoms = [\<lparr>atom_charge = 1, atom_type = ''Li'', atom_name = ''Li1''\<rparr>],
       res_fragments = [[\<lparr>atom_charge = 1, atom_type = ''Li'', atom_name = ''Li1''\<rparr>]]\<rparr>]
     ''cation''
     = Inr \<lparr>res_name = ''cation'',
       res_atoms = [\<lparr>atom_charge = 0, atom_type = ''o'', atom_name = ''O1''\<rparr>],
       res_fragments = [[\<lparr>atom_charge = 0, atom_type = ''o'', atom_name = ''O1''\<rparr>]]\<rparr>
   \<and> near_zero \<lparr>res_name = ''cation'',
       res_atoms = [\<lparr>atom_charge = 0, atom_type = ''o'', atom_name = ''O1''\<rparr>],
       res_fragments = [[\<lparr>atom_charge = 0, atom_type = ''o'', atom_name = ''O1''\<rparr>]]\<rparr>
   \<and> atom_type (extremal_atom False [\<lparr>atom_charge = 0, atom_type = ''o'', atom_name = ''O1''\<rparr>]) = ''o''
   \<and> select_dict_from_resname
     [\<lparr>res_name = ''cation'',
       res_atoms = [\<lparr>atom_charge = 0, atom_type = ''o'', atom_name = ''O1''\<rparr>],
       res_fragments = [[\<lparr>atom_charge = 0, atom_type = ''o'', atom_name = ''O1''\<rparr>]]\<rparr>,
      \<lparr>res_name = ''lithium'',
       res_atoms = [\<lparr>atom_charge = 1, atom_type = ''Li'', atom_name = ''Li1''\<rparr>],
       res_fragments = [[\<lparr>atom_charge = 1, atom_type = ''Li'', atom_name = ''Li1''\<rparr>]]\<rparr>]
     = Inr [(''cation'', ''type Li'')]"
proof -
  let ?o = "\<lparr>atom_charge = 0, atom_type = ''o'', atom_name = ''O1''\<rparr>"
  let ?li = "\<lparr>atom_charge = 1, atom_type = ''Li'', atom_name = ''Li1''\<rparr>"
  let ?r0 = "\<lparr>res_name = ''cation'', res_atoms = [?o], res_fragments = [[?o]]\<rparr>"
  let ?r1 = "\<lparr>res_name = ''lithium'', res_atoms = [?li], res_fragments = [[?li]]\<rparr>"
  have wf: "well_formed [?r0, ?r1]" by (simp add: well_formed_def)
  have f0: "first_residue [?r0, ?r1] ''cation'' = Inr ?r0" by (simp add: first_residue_def)
  have f1: "first_residue [?r0, ?r1] ''lithium'' = Inr ?r1" by (simp add: first_residue_def)
  have z: "near_zero ?r0" by (simp add: near_zero_def np_sum_def)
  have t: "atom_type (extremal_atom False [?o]) = ''o''"
    by (simp add: extremal_atom_def first_index_def)
  have names: "np_unique (map res_name [?r0, ?r1]) = [''cation'', ''lithium'']"
    by (simp add: np_unique_def)
  have c0: "classify_residue ''cation'' ?r0 d = Inr (AList.update ''cation'' ''type o'' d)" for d
    using classify_residue_single_fragment [OF z, of "''cation''" d] t by simp
  have c1: "classify_residue ''lithium'' ?r1 d = Inr (AList.update ''cation'' ''type Li'' d)" for d
    by (simp add: classify_residue_def np_sum_def extract_atom_from_ion_single ion_name_def)
  have res: "select_dict_from_resname [?r0, ?r1] = Inr [(''cation'', ''type Li'')]"
    unfolding select_dict_from_resname_def names
    by (simp add: f0 f1 c0 c1)
  from wf f0 z t res show ?thesis by (intro conjI)
qed

theorem select_dict_from_resname_neutral_witness:
  "well_formed
     [\<lparr>res_name = ''LiX'',
       res_atoms = [\<lparr>atom_charge = 1, atom_type = ''Li'', atom_name = ''Li1''\<rparr>,
                    \<lparr>atom_charge = - 1, atom_type = ''x'', atom_name = ''X1''\<rparr>],
       res_fragments = [[\<lparr>atom_charge = 1, atom_type = ''Li'', atom_name = ''Li1''\<rparr>],
                        [\<lparr>atom_charge = - 1, atom_type = ''x'', atom_name = ''X1''\<rparr>]]\<rparr>,
      \<lparr>res_name = ''EC'',
       res_atoms = [\<lparr>atom_charge = 1 / 2, atom_type = ''c'', atom_name = ''C1''\<rparr>,
                    \<lparr>atom_charge = - (1 / 2), atom_type = ''o'', atom_name = ''O1''\<rparr>],
       res_fragments = [[\<lparr>atom_charge = 1 / 2, atom_type = ''c'', atom_name = ''C1''\<rparr>,
                         \<lparr>atom_charge = - (1 / 2), atom_type = ''o'', atom_name = ''O1''\<rparr>]]\<rparr>]
   \<and> key_kept
     [\<lparr>res_name = ''LiX'',
       res_atoms = [\<lparr>atom_charge = 1, atom_type = ''Li'', atom_name = ''Li1''\<rparr>,
                    \<lparr>atom_charge = - 1, atom_type = ''x'', atom_name = ''X1''\<rparr>],
       res_fragments = [[\<lparr>atom_charge = 1, atom_type = ''Li'', atom_name = ''Li1''\<rparr>],
                        [\<lparr>atom_charge = - 1, atom_type = ''x'', atom_name = ''X1''\<rparr>]]\<rparr>,
      \<lparr>res_name = ''EC'',
       res_atoms = [\<lparr>atom_charge = 1 / 2, atom_type = ''c'', atom_name = ''C1''\<rparr>,
                    \<lparr>atom_charge = - (1 / 2), atom_type = ''o'', atom_name = ''O1''\<rparr>],
       res_fragments = [[\<lparr>atom_charge = 1 / 2, atom_type = ''c'', atom_name = ''C1''\<rparr>,
                         \<lparr>atom_charge = - (1 / 2), atom_type = ''o'', atom_name = ''O1''\<rparr>]]\<rparr>]
     ''EC''
   \<and> (\<exists>select_dict. select_dict_from_resname
     [\<lparr>res_name = ''LiX'',
       res_atoms = [\<lparr>atom_charge = 1, atom_type = ''Li'', atom_name = ''Li1''\<rparr>,
                    \<lparr>atom_charge = - 1, atom_type = ''x'', atom_name = ''X1''\<rparr>],
       res_fragments = [[\<lparr>atom_charge = 1, atom_type = ''Li'', atom_name = ''Li1''\<rparr>],
                        [\<lparr>atom_charge = - 1, atom_type = ''x'', atom_name = ''X1''\<rparr>]]\<rparr>,
      \<lparr>res_name = ''EC'',
       res_atoms = [\<lparr>atom_charge = 1 / 2, atom_type = ''c'', atom_name = ''C1''\<rparr>,
                    \<lparr>atom_charge = - (1 / 2), atom_type = ''o'', atom_name = ''O1''\<rparr>],
       res_fragments = [[\<lparr>atom_charge = 1 / 2, atom_type = ''c'', atom_name = ''C1''\<rparr>,
                         \<lparr>atom_charge = - (1 / 2), atom_type = ''o'', atom_name = ''O1''\<rparr>]]\<rparr>]
       = Inr select_dict
      \<and> ''cation'' \<in> fst ` set select_dict \<and> ''anion'' \<in> fst ` set select_dict
      \<and> map_of select_dict ''EC'' = Some ''type o'')"
proof -
  let ?li = "\<lparr>atom_charge = 1, atom_type = ''Li'', atom_name = ''Li1''\<rparr>"
  let ?x = "\<lparr>atom_charge = - 1, atom_type = ''x'', atom_name = ''X1''\<rparr>"
  let ?c = "\<lparr>atom_charge = 1 / 2, atom_type = ''c'', atom_name = ''C1''\<rparr>"
  let ?o = "\<lparr>atom_charge = - (1 / 2), atom_type = ''o'', atom_name = ''O1''\<rparr>"
  let ?r0 = "\<lparr>res_name = ''LiX'', res_atoms = [?li, ?x], res_fragments = [[?li], [?x]]\<rparr>"
  let ?r1 = "\<lparr>res_name = ''EC'', res_atoms = [?c, ?o], res_fragments = [[?c, ?o]]\<rparr>"
  let ?u = "[?r0, ?r1]"
  have wf: "well_formed ?u" by (simp add: well_formed_def)
  have f0: "first_residue ?u ''LiX'' = Inr ?r0" by (simp add: first_residue_def)
  have f1: "first_residue ?u ''EC'' = Inr ?r1" by (simp add: first_residue_def)
  have z0: "near_zero ?r0" by (simp add: near_zero_def np_sum_def)
  have z1: "near_zero ?r1" by (simp add: near_zero_def np_sum_def)
  have names: "np_unique (map res_name ?u) = [''EC'', ''LiX'']"
    by (simp add: np_unique_def)
  have later: "later_resnames ?u ''EC'' = [''LiX'']"
    unfolding later_resnames_def names by simp
  have c0: "classify_residue ''LiX'' ?r0 [] = Inr [(''cation'', ''type Li''), (''anion'', ''type x'')]"
    by (simp add: classify_residue_two_fragments [OF z0] np_sum_def
        extract_atom_from_ion_single ion_name_def)
  have kk: "key_kept ?u ''EC''"
    unfolding key_kept_def later by (simp add: f0 c0)
  have t: "atom_type (extremal_atom False [?c, ?o]) = ''o''"
    by (simp add: extremal_atom_def first_index_def)
  have ch: "frag_charge [?li] = 1 \<and> frag_charge [?x] = - 1"
    by (simp add: frag_charge_def np_sum_def)
  from select_dict_from_resname_neutral [OF wf _ f0 z0] ch
  obtain sd where sd: "select_dict_from_resname ?u = Inr sd"
    and ions: "''cation'' \<in> fst ` set sd \<and> ''anion'' \<in> fst ` set sd"
    by auto
  from select_dict_from_resname_neutral [OF wf _ f1 z1] kk t
  obtain sd' where sd': "select_dict_from_resname ?u = Inr sd'"
    and ec: "map_of sd' ''EC'' = Some ''type o''"
    by auto
  from sd sd' have "sd' = sd" by simp
  with wf kk sd ions ec show ?thesis by blast
qed

end
